theory Spec2Isabelle
  imports Main
begin

section \<open>Python values used by qlf\_fasm.py\<close>

text \<open>
  The exceptions that the modelled code can raise. \<open>LookupError\<close> and
  \<open>FeatureConflict\<close> are the two classes declared inside \<open>QlfFasmAssembler\<close>; the others
  are Python's built-in exceptions, raised by indexing, by \<open>assert\<close>, by a missing dict key,
  by a missing attribute and by \<open>max\<close> of an empty list.
\<close>

datatype error =
    LookupError
  | FeatureConflict
  | AttributeError
  | IndexError
  | AssertionError
  | KeyError
  | ValueError

subsection \<open>Strings\<close>

text \<open>\<open>s.split(c)\<close> for a one-character separator: always at least one piece.\<close>

fun py_split :: "char \<Rightarrow> string \<Rightarrow> string list" where
  "py_split c [] = [[]]"
| "py_split c (x # xs) =
     (if x = c then [] # py_split c xs
      else (case py_split c xs of
              [] \<Rightarrow> [[x]]
            | p # ps \<Rightarrow> (x # p) # ps))"

text \<open>\<open>sep.join(parts)\<close>.\<close>

fun py_join :: "string \<Rightarrow> string list \<Rightarrow> string" where
  "py_join sep [] = []"
| "py_join sep [p] = p"
| "py_join sep (p # q # ps) = p @ sep @ py_join sep (q # ps)"

text \<open>\<open>s.startswith(p)\<close>.\<close>

definition startswith :: "string \<Rightarrow> string \<Rightarrow> bool" where
  "startswith s p = (take (length p) s = p)"

text \<open>
  \<open>s.replace(old, new)\<close>: every non-overlapping occurrence of \<open>old\<close>, scanning from the
  left, is replaced. (With an empty \<open>old\<close> Python puts \<open>new\<close> before every character and at
  the end.)
\<close>

function py_replace :: "string \<Rightarrow> string \<Rightarrow> string \<Rightarrow> string" where
  "py_replace old new s =
     (if old = [] then new @ concat (map (\<lambda>c. c # new) s)
      else if s = [] then []
      else if startswith s old then new @ py_replace old new (drop (length old) s)
      else hd s # py_replace old new (tl s))"
  by pat_completeness auto
termination
  by (relation "measure (\<lambda>(old, new, s). length s)") auto

declare py_replace.simps [simp del]

text \<open>\<open>s.split(c, maxsplit=1)[0]\<close>: the text before the first \<open>c\<close> (all of it if none).\<close>

definition py_split1_head :: "char \<Rightarrow> string \<Rightarrow> string" where
  "py_split1_head c s = takeWhile (\<lambda>x. x \<noteq> c) s"

text \<open>Decimal digits: the class \<open>[0-9]\<close>, and the number that a string of digits denotes.\<close>

definition is_digit :: "char \<Rightarrow> bool" where
  "is_digit c = (c \<in> set ''0123456789'')"

definition digit_val :: "char \<Rightarrow> nat" where
  "digit_val c = of_char c - 48"

definition int_of_digits :: "string \<Rightarrow> int" where
  "int_of_digits s = int (foldl (\<lambda>a c. 10 * a + digit_val c) 0 s)"

text \<open>
  \<open>int(s)\<close> on a nonempty string of digits, which is what the groups \<open>x\<close> and \<open>y\<close> of
  \<open>LOC_RE\<close> are. CPython refuses to convert a decimal string of more than
  \<open>sys.get_int_max_str_digits()\<close> digits, 4300 by default, and raises ValueError; leading
  zeros count as digits.
\<close>

definition int_max_str_digits :: int where
  "int_max_str_digits = 4300"

definition py_int :: "string \<Rightarrow> error + int" where
  "py_int s =
     (if int_max_str_digits < int (length s) then Inl ValueError else Inr (int_of_digits s))"

text \<open>
  \<open>str(n)\<close>, as \<open>format\<close> applies it to the coordinates of the database and to the bit
  index of a statement. These integers were read from decimal text by the JSON and FASM
  parsers, so they are below the limit of digits and formatting them does not fail.
\<close>

fun str_nat :: "nat \<Rightarrow> string" where
  "str_nat n =
     (if n < 10 then [char_of (48 + n)]
      else str_nat (n div 10) @ [char_of (48 + n mod 10)])"

declare str_nat.simps [simp del]

definition str_int :: "int \<Rightarrow> string" where
  "str_int i = (if i < 0 then CHR ''-'' # str_nat (nat (- i)) else str_nat (nat i))"

subsection \<open>Byte arrays\<close>

text \<open>
  A \<open>bytearray\<close> is a list of numbers. Indexing with \<open>a\<close> accepts
  \<open>-len \<le> a < len\<close>, a negative index counting from the end; anything else raises
  IndexError. \<open>py_index a n\<close> is the position read or written, if there is one.
\<close>

definition py_index :: "int \<Rightarrow> nat \<Rightarrow> nat option" where
  "py_index a n =
     (if 0 \<le> a \<and> a < int n then Some (nat a)
      else if - int n \<le> a \<and> a < 0 then Some (nat (a + int n))
      else None)"

text \<open>A \<open>bool\<close> stored in a byte array, or compared with a byte: \<open>True\<close> is 1.\<close>

definition int_of_bool :: "bool \<Rightarrow> nat" where
  "int_of_bool b = (if b then 1 else 0)"

section \<open>The database\<close>

text \<open>class \<open>Bit\<close>: an index and a value. It has no other attribute.\<close>

record Bit =
  idx :: int
  val :: bool

text \<open>
  A dict is an association list in insertion order, looked up with \<open>map_of\<close>. A segbits
  table maps feature names to tuples of bits.
\<close>

type_synonym segbits_table = "(string \<times> Bit list) list"

text \<open>The entries of \<open>Database.tiles\<close>, \<open>Database.routing\<close> and \<open>Database.regions\<close>.\<close>

record tile =
  tile_type :: string
  tile_region :: int
  tile_offset :: int

record sbox =
  sbox_type :: string
  sbox_variant :: string
  sbox_region :: int
  sbox_offset :: int

record region =
  region_offset :: int
  region_length :: int

type_synonym loc = "int \<times> int"

record database =
  tiles :: "(loc \<times> tile) list"
  routing :: "(loc \<times> (string \<times> sbox) list) list"
  segbits :: "(string \<times> segbits_table) list"
  bitstream_size :: nat
  regions :: "(int \<times> region) list"

section \<open>The assembler\<close>

text \<open>
  \<open>LOC_RE.fullmatch\<close> for \<open>(?P<name>.+)_(?P<x>[0-9]+)__(?P<y>[0-9]+)_$\<close>: the groups
  \<open>(name, x, y)\<close>, or \<open>None\<close>. The string is read from its end: a final underscore, the
  digits of \<open>y\<close>, two underscores, the digits of \<open>x\<close>, one underscore, and a nonempty rest
  for \<open>.+\<close>, which matches no newline. Each digit group is preceded by an underscore, so
  it is the whole run of digits there and the match is the only one.
\<close>

definition LOC_RE_fullmatch :: "string \<Rightarrow> (string \<times> string \<times> string) option" where
  "LOC_RE_fullmatch s =
     (case rev s of
        [] \<Rightarrow> None
      | c0 # r1 \<Rightarrow>
          if c0 \<noteq> CHR ''_'' then None
          else
            let y = takeWhile is_digit r1; r2 = dropWhile is_digit r1 in
            if y = [] then None
            else (case r2 of
                c1 # c2 # r3 \<Rightarrow>
                  if c1 \<noteq> CHR ''_'' \<or> c2 \<noteq> CHR ''_'' then None
                  else
                    let x = takeWhile is_digit r3; r4 = dropWhile is_digit r3 in
                    if x = [] then None
                    else (case r4 of
                        [] \<Rightarrow> None
                      | c3 # r5 \<Rightarrow>
                          if c3 \<noteq> CHR ''_'' \<or> r5 = [] \<or> CHR 0x0A \<in> set r5 then None
                          else Some (rev r5, rev x, rev y))
              | _ \<Rightarrow> None))"

text \<open>
  A statement of the FASM library, \<open>fasm.SetFasmFeature\<close>: the feature path, the bit range
  \<open>start\<close>, \<open>end\<close> (either may be \<open>None\<close>) and the value. A parsed line holds one in
  \<open>set_feature\<close>, or \<open>None\<close> for a line that sets nothing.
\<close>

record SetFasmFeature =
  sf_feature :: string
  sf_start :: "int option"
  sf_end :: "int option"
  sf_value :: int

record FasmLine =
  set_feature :: "SetFasmFeature option"

text \<open>
  \<open>fasm.canonical_features\<close> belongs to the FASM library, not to this program. The model
  takes it as a parameter: any function from a statement to a list of statements.
\<close>

type_synonym canonical_features = "SetFasmFeature \<Rightarrow> SetFasmFeature list"

text \<open>
  The assembler's state: the bit array (a \<open>bytearray\<close>) and \<open>features_by_bits\<close>, a dict
  from addresses to sets of keys.
\<close>

record assembler =
  bitstream :: "nat list"
  features_by_bits :: "int \<rightharpoonup> string set"

text \<open>\<open>QlfFasmAssembler.__init__\<close>.\<close>

definition init_assembler :: "database \<Rightarrow> assembler" where
  "init_assembler db =
     \<lparr>bitstream = replicate (bitstream_size db) 0, features_by_bits = Map.empty\<rparr>"

subsection \<open>\<open>process_fasm_line\<close>, lines 215 to 266: from the path to a table and an offset\<close>

text \<open>\<open>offset += self.database.regions[region]["offset"]\<close>; a missing region is a KeyError.\<close>

definition add_region_offset ::
  "database \<Rightarrow> segbits_table \<Rightarrow> int \<Rightarrow> int \<Rightarrow> error + (segbits_table \<times> int)" where
  "add_region_offset db sb reg offset =
     (case map_of (regions db) reg of
        None \<Rightarrow> Inl KeyError
      | Some r \<Rightarrow> Inr (sb, offset + region_offset r))"

text \<open>The name of the segbits table of a tile: \<open>name.replace("grid_", "")\<close>.\<close>

definition tile_segbits_name :: "string \<Rightarrow> string" where
  "tile_segbits_name name = py_replace ''grid_'' [] name"

text \<open>
  Lines 228 to 266: the table and the offset for the component \<open>name\<close> at the location
  \<open>loc\<close>, a tile when the name starts with \<open>grid_\<close> and a routing resource otherwise.
\<close>

definition resolve_at :: "database \<Rightarrow> string \<Rightarrow> loc \<Rightarrow> error + (segbits_table \<times> int)" where
  "resolve_at db name loc =
     (if startswith name ''grid_'' then
        (let name = tile_segbits_name name in
         case map_of (tiles db) loc of
           None \<Rightarrow> Inl LookupError
         | Some tile \<Rightarrow>
             (case map_of (segbits db) name of
                None \<Rightarrow> Inl LookupError
              | Some sb \<Rightarrow> add_region_offset db sb (tile_region tile) (tile_offset tile)))
      else
        (let name = py_split1_head CHR ''_'' name in
         case map_of (routing db) loc of
           None \<Rightarrow> Inl LookupError
         | Some at_loc \<Rightarrow>
             (case map_of at_loc name of
                None \<Rightarrow> Inl LookupError
              | Some sbox \<Rightarrow>
                  let segbits_name = name @ ''_'' @ sbox_variant sbox in
                  (case map_of (segbits db) segbits_name of
                     None \<Rightarrow> Inl LookupError
                   | Some sb \<Rightarrow>
                       add_region_offset db sb (sbox_region sbox) (sbox_offset sbox)))))"

text \<open>
  Lines 215 to 226, then the lookups: the split of the path, the check of its first
  segment, the match of the second, and the two calls of \<open>int\<close>, \<open>x\<close> first.
\<close>

definition resolve_feature :: "database \<Rightarrow> string \<Rightarrow> error + (segbits_table \<times> int)" where
  "resolve_feature db f =
     (let parts = py_split CHR ''.'' f in
      if length parts < 3 \<or> parts ! 0 \<noteq> ''fpga_top'' then Inl LookupError
      else
        (case LOC_RE_fullmatch (parts ! 1) of
           None \<Rightarrow> Inl LookupError
         | Some (name, x, y) \<Rightarrow>
             (case py_int x of
                Inl e \<Rightarrow> Inl e
              | Inr loc_x \<Rightarrow>
                  (case py_int y of
                     Inl e \<Rightarrow> Inl e
                   | Inr loc_y \<Rightarrow> resolve_at db name (loc_x, loc_y)))))"

subsection \<open>Lines 277 to 296: the key and the bits of a single-bit feature\<close>

definition base_name_of :: "string \<Rightarrow> string" where
  "base_name_of f = py_join ''.'' (drop 2 (py_split CHR ''.'' f))"

definition indexed_key :: "string \<Rightarrow> int \<Rightarrow> string" where
  "indexed_key base_name i = base_name @ ''['' @ str_int i @ '']''"

text \<open>
  The pair \<open>(key, bits)\<close> after line 291; \<open>bits\<close> is \<open>None\<close> when the table has no entry.
  A table's values are tuples, so \<open>segbits.get(key, None)\<close> is \<open>None\<close> only for a
  missing key.
\<close>

definition lookup_segbits ::
  "segbits_table \<Rightarrow> string \<Rightarrow> int option \<Rightarrow> string \<times> Bit list option" where
  "lookup_segbits sb base_name start =
     (case (if start = Some 0 \<or> start = None then map_of sb base_name else None) of
        Some bits \<Rightarrow> (base_name, Some bits)
      | None \<Rightarrow>
          let i = (case start of None \<Rightarrow> 0 | Some s \<Rightarrow> s);
              key = indexed_key base_name i
          in (key, map_of sb key))"

subsection \<open>Lines 305 to 330: applying the bits\<close>

text \<open>
  The conflict test of lines 309 to 324, for an address that has an entry \<open>keys\<close> in
  \<open>features_by_bits\<close>. When the key is among them and the stored bit differs, the branch
  builds its message from \<open>bit.id\<close>. A \<open>Bit\<close> has the attributes \<open>idx\<close> and \<open>val\<close> only,
  so that raises AttributeError, and \<open>raise self.FeatureConflict(msg)\<close> is never reached.
\<close>

definition check_conflict ::
  "string \<Rightarrow> Bit \<Rightarrow> int \<Rightarrow> string set \<Rightarrow> assembler \<Rightarrow> error option" where
  "check_conflict key b address keys st =
     (if key \<in> keys then
        (case py_index address (length (bitstream st)) of
           None \<Rightarrow> Some IndexError
         | Some i \<Rightarrow>
             if int_of_bool (val b) \<noteq> bitstream st ! i then Some AttributeError
             else None)
      else None)"

text \<open>Lines 329 and 330: the store, then the key added to the address's set.\<close>

definition store_bit :: "string \<Rightarrow> Bit \<Rightarrow> int \<Rightarrow> assembler \<Rightarrow> assembler \<times> error option" where
  "store_bit key b address st =
     (case py_index address (length (bitstream st)) of
        None \<Rightarrow> (st, Some IndexError)
      | Some i \<Rightarrow>
          (st\<lparr>bitstream := (bitstream st)[i := int_of_bool (val b)],
              features_by_bits := (features_by_bits st)
                (address \<mapsto> insert key (case features_by_bits st address of
                                           None \<Rightarrow> {} | Some keys \<Rightarrow> keys))\<rparr>,
           None))"

definition apply_bit :: "string \<Rightarrow> int \<Rightarrow> Bit \<Rightarrow> assembler \<Rightarrow> assembler \<times> error option" where
  "apply_bit key offset b st =
     (let address = idx b + offset in
      case features_by_bits st address of
        Some keys \<Rightarrow>
          (case check_conflict key b address keys st of
             Some e \<Rightarrow> (st, Some e)
           | None \<Rightarrow> store_bit key b address st)
      | None \<Rightarrow>
          store_bit key b address
            (st\<lparr>features_by_bits := (features_by_bits st)(address \<mapsto> {})\<rparr>))"

fun apply_bits :: "string \<Rightarrow> int \<Rightarrow> Bit list \<Rightarrow> assembler \<Rightarrow> assembler \<times> error option" where
  "apply_bits key offset [] st = (st, None)"
| "apply_bits key offset (b # bits) st =
     (case apply_bit key offset b st of
        (st', Some e) \<Rightarrow> (st', Some e)
      | (st', None) \<Rightarrow> apply_bits key offset bits st')"

subsection \<open>The loop over the canonical features, and the whole of \<open>process_fasm_line\<close>\<close>

definition process_one_feature ::
  "segbits_table \<Rightarrow> int \<Rightarrow> SetFasmFeature \<Rightarrow> assembler \<Rightarrow> assembler \<times> error option" where
  "process_one_feature sb offset one_feature st =
     (if sf_value one_feature \<noteq> 0 \<and> sf_value one_feature \<noteq> 1 then (st, Some AssertionError)
      else if sf_value one_feature = 0 then (st, None)
      else
        (case lookup_segbits sb (base_name_of (sf_feature one_feature)) (sf_start one_feature) of
           (key, None) \<Rightarrow> (st, Some LookupError)
         | (key, Some bits) \<Rightarrow> apply_bits key offset bits st))"

fun process_features ::
  "segbits_table \<Rightarrow> int \<Rightarrow> SetFasmFeature list \<Rightarrow> assembler \<Rightarrow> assembler \<times> error option" where
  "process_features sb offset [] st = (st, None)"
| "process_features sb offset (one_feature # rest) st =
     (case process_one_feature sb offset one_feature st of
        (st', Some e) \<Rightarrow> (st', Some e)
      | (st', None) \<Rightarrow> process_features sb offset rest st')"

text \<open>
  The result is the assembler after the call and the exception that left it, if any: what
  was stored before a \<open>raise\<close> stays stored.
\<close>

definition process_fasm_line ::
  "database \<Rightarrow> canonical_features \<Rightarrow> FasmLine \<Rightarrow> assembler \<Rightarrow> assembler \<times> error option" where
  "process_fasm_line db canon line st =
     (case set_feature line of
        None \<Rightarrow> (st, None)
      | Some sf \<Rightarrow>
          if sf_value sf = 0 then (st, None)
          else
            (case resolve_feature db (sf_feature sf) of
               Inl e \<Rightarrow> (st, Some e)
             | Inr (sb, offset) \<Rightarrow> process_features sb offset (canon sf) st))"

subsection \<open>\<open>assemble_bitstream\<close>\<close>

text \<open>
  The loop of lines 340 to 350 with its accumulator \<open>unknown_features\<close>: a LookupError is
  caught and the line collected, any other exception leaves the function.
\<close>

fun assemble_loop ::
  "database \<Rightarrow> canonical_features \<Rightarrow> FasmLine list \<Rightarrow> FasmLine list \<Rightarrow> assembler
     \<Rightarrow> assembler \<times> (error + FasmLine list)" where
  "assemble_loop db canon unknown_features [] st = (st, Inr unknown_features)"
| "assemble_loop db canon unknown_features (line # fasm_lines) st =
     (case process_fasm_line db canon line st of
        (st', None) \<Rightarrow> assemble_loop db canon unknown_features fasm_lines st'
      | (st', Some e) \<Rightarrow>
          if e = LookupError
          then assemble_loop db canon (unknown_features @ [line]) fasm_lines st'
          else (st', Inl e))"

definition assemble_bitstream ::
  "database \<Rightarrow> canonical_features \<Rightarrow> FasmLine list \<Rightarrow> assembler
     \<Rightarrow> assembler \<times> (error + FasmLine list)" where
  "assemble_bitstream db canon fasm_lines st = assemble_loop db canon [] fasm_lines st"

section \<open>The disassembler\<close>

text \<open>\<open>match_segbits\<close>: the loop leaves at the first bit that differs.\<close>

fun match_segbits :: "nat list \<Rightarrow> Bit list \<Rightarrow> int \<Rightarrow> error + bool" where
  "match_segbits bs [] offset = Inr True"
| "match_segbits bs (segbit # rest) offset =
     (let address = idx segbit + offset in
      if \<not> address < int (length bs) then Inl AssertionError
      else
        (case py_index address (length bs) of
           None \<Rightarrow> Inl IndexError
         | Some i \<Rightarrow>
             if bs ! i \<noteq> int_of_bool (val segbit) then Inr False
             else match_segbits bs rest offset))"

text \<open>The closure \<open>emit_feature\<close>; the suffix is \<open>=1'b\<close> and the value as 0 or 1.\<close>

definition emit_feature :: "bool \<Rightarrow> string \<Rightarrow> bool \<Rightarrow> string" where
  "emit_feature emit_unset full_name v =
     (if emit_unset
      then full_name @ [CHR ''='', CHR ''1'', CHR 0x27, CHR ''b''] @ str_int (int (int_of_bool v))
      else full_name)"

text \<open>The inner loop \<open>for feature, bits in segbits.items()\<close>, the same for tiles and routing.\<close>

fun disassemble_table ::
  "nat list \<Rightarrow> bool \<Rightarrow> string \<Rightarrow> int \<Rightarrow> segbits_table \<Rightarrow> string list \<Rightarrow> error + string list" where
  "disassemble_table bs emit_unset pre offset [] features = Inr features"
| "disassemble_table bs emit_unset pre offset ((feature, bits) # rest) features =
     (case match_segbits bs bits offset of
        Inl e \<Rightarrow> Inl e
      | Inr v \<Rightarrow>
          if \<not> v \<and> \<not> emit_unset
          then disassemble_table bs emit_unset pre offset rest features
          else disassemble_table bs emit_unset pre offset rest
                 (features @ [emit_feature emit_unset (pre @ ''.'' @ feature) v]))"

definition tile_prefix :: "loc \<Rightarrow> tile \<Rightarrow> string" where
  "tile_prefix l t =
     ''fpga_top.grid_'' @ tile_type t @ ''_'' @ str_int (fst l) @ ''__'' @ str_int (snd l) @ ''_''"

definition sbox_prefix :: "loc \<Rightarrow> sbox \<Rightarrow> string" where
  "sbox_prefix l s =
     ''fpga_top.'' @ sbox_type s @ ''_'' @ str_int (fst l) @ ''__'' @ str_int (snd l) @ ''_''"

fun disassemble_tiles ::
  "database \<Rightarrow> nat list \<Rightarrow> bool \<Rightarrow> (loc \<times> tile) list \<Rightarrow> string list \<Rightarrow> error + string list" where
  "disassemble_tiles db bs emit_unset [] features = Inr features"
| "disassemble_tiles db bs emit_unset ((l, t) # rest) features =
     (case map_of (segbits db) (tile_type t) of
        None \<Rightarrow> Inl AssertionError
      | Some sb \<Rightarrow>
          (case map_of (regions db) (tile_region t) of
             None \<Rightarrow> Inl KeyError
           | Some r \<Rightarrow>
               (case disassemble_table bs emit_unset (tile_prefix l t)
                       (tile_offset t + region_offset r) sb features of
                  Inl e \<Rightarrow> Inl e
                | Inr features' \<Rightarrow> disassemble_tiles db bs emit_unset rest features')))"

fun disassemble_sboxes ::
  "database \<Rightarrow> nat list \<Rightarrow> bool \<Rightarrow> loc \<Rightarrow> (string \<times> sbox) list \<Rightarrow> string list
     \<Rightarrow> error + string list" where
  "disassemble_sboxes db bs emit_unset l [] features = Inr features"
| "disassemble_sboxes db bs emit_unset l ((sbox_type_key, s) # rest) features =
     (case map_of (segbits db) (sbox_type s @ ''_'' @ sbox_variant s) of
        None \<Rightarrow> Inl AssertionError
      | Some sb \<Rightarrow>
          (case map_of (regions db) (sbox_region s) of
             None \<Rightarrow> Inl KeyError
           | Some r \<Rightarrow>
               (case disassemble_table bs emit_unset (sbox_prefix l s)
                       (sbox_offset s + region_offset r) sb features of
                  Inl e \<Rightarrow> Inl e
                | Inr features' \<Rightarrow> disassemble_sboxes db bs emit_unset l rest features')))"

fun disassemble_routing ::
  "database \<Rightarrow> nat list \<Rightarrow> bool \<Rightarrow> (loc \<times> (string \<times> sbox) list) list \<Rightarrow> string list
     \<Rightarrow> error + string list" where
  "disassemble_routing db bs emit_unset [] features = Inr features"
| "disassemble_routing db bs emit_unset ((l, at_loc) # rest) features =
     (case disassemble_sboxes db bs emit_unset l at_loc features of
        Inl e \<Rightarrow> Inl e
      | Inr features' \<Rightarrow> disassemble_routing db bs emit_unset rest features')"

definition disassemble_bitstream :: "database \<Rightarrow> nat list \<Rightarrow> bool \<Rightarrow> error + string list" where
  "disassemble_bitstream db bs emit_unset =
     (if length bs \<noteq> bitstream_size db then Inl AssertionError
      else
        (case disassemble_tiles db bs emit_unset (tiles db) [] of
           Inl e \<Rightarrow> Inl e
         | Inr features \<Rightarrow> disassemble_routing db bs emit_unset (routing db) features))"

section \<open>\<open>fasm_to_bitstream\<close>: padding the regions\<close>

text \<open>
  Slices of a \<open>bytearray\<close>. A bound below zero counts from the end, and every bound is
  clamped to the length. \<open>xs[i:j] = ys\<close> replaces the elements from \<open>i\<close> up to
  \<open>max i j\<close> by \<open>ys\<close>, whatever the length of \<open>ys\<close>: the array may shrink or grow.
\<close>

definition py_slice_index :: "int \<Rightarrow> nat \<Rightarrow> nat" where
  "py_slice_index i n = (if i < 0 then nat (max 0 (i + int n)) else min (nat i) n)"

definition py_get_slice :: "'a list \<Rightarrow> int \<Rightarrow> int \<Rightarrow> 'a list" where
  "py_get_slice xs i j =
     (let a = py_slice_index i (length xs); b = py_slice_index j (length xs)
      in take (b - a) (drop a xs))"

definition py_set_slice :: "'a list \<Rightarrow> int \<Rightarrow> int \<Rightarrow> 'a list \<Rightarrow> 'a list" where
  "py_set_slice xs i j ys =
     (let a = py_slice_index i (length xs); b = py_slice_index j (length xs)
      in take a xs @ ys @ drop (max a b) xs)"

text \<open>\<open>max\<close> of a nonempty list.\<close>

definition py_max :: "int list \<Rightarrow> int" where
  "py_max xs = foldl max (hd xs) (tl xs)"

text \<open>The loop of lines 497 to 504 over \<open>database.regions.items()\<close>.\<close>

fun pad_regions :: "int \<Rightarrow> nat list \<Rightarrow> (int \<times> region) list \<Rightarrow> nat list \<Rightarrow> nat list" where
  "pad_regions max_region bs [] padded_bitstream = padded_bitstream"
| "pad_regions max_region bs ((region_id, r) # rest) padded_bitstream =
     (let dst_address = region_id * max_region;
          src_address = region_offset r;
          len = region_length r
      in pad_regions max_region bs rest
           (py_set_slice padded_bitstream dst_address (dst_address + len)
              (py_get_slice bs src_address (src_address + len))))"

text \<open>
  Lines 490 to 504 on the assembled bit array \<open>bs\<close>. \<open>max\<close> of no region and
  \<open>bytearray\<close> of a negative length raise ValueError.
\<close>

definition pad_bitstream :: "database \<Rightarrow> nat list \<Rightarrow> error + nat list" where
  "pad_bitstream db bs =
     (if regions db = [] then Inl ValueError
      else
        let max_region = py_max (map (\<lambda>(region_id, r). region_length r) (regions db));
            padded_length = max_region * int (length (regions db))
        in if padded_length < 0 then Inl ValueError
           else Inr (pad_regions max_region bs (regions db) (replicate (nat padded_length) 0)))"

section \<open>Notions used to state the properties\<close>

subsection \<open>Keys and reads\<close>

text \<open>
  The keys that the single-bit lookup may try, in order: the bare base name when no index
  or index 0 was supplied, then the indexed name, whose index is 0 when none was supplied.
\<close>

definition candidate_keys :: "string \<Rightarrow> int option \<Rightarrow> string list" where
  "candidate_keys base_name start =
     (if start = None \<or> start = Some 0 then [base_name] else [])
     @ [indexed_key base_name (case start of None \<Rightarrow> 0 | Some i \<Rightarrow> i)]"

text \<open>
  What the disassembler reads at an address: the byte that \<open>self.bitstream[address]\<close>
  yields once \<open>assert address < len(self.bitstream)\<close> has passed. For
  \<open>0 \<le> address < len\<close> it is the byte at that address.
\<close>

definition read_at :: "nat list \<Rightarrow> int \<Rightarrow> nat option" where
  "read_at bs address =
     (if address < int (length bs)
      then map_option (\<lambda>i. bs ! i) (py_index address (length bs))
      else None)"

subsection \<open>Provenance\<close>

text \<open>The keys recorded for an address: its set in \<open>features_by_bits\<close>, empty when absent.\<close>

definition keys_at :: "assembler \<Rightarrow> int \<Rightarrow> string set" where
  "keys_at st a = (case features_by_bits st a of None \<Rightarrow> {} | Some keys \<Rightarrow> keys)"

text \<open>The addresses that a pattern touches at an offset.\<close>

definition addresses :: "int \<Rightarrow> Bit list \<Rightarrow> int set" where
  "addresses offset bits = (\<lambda>b. idx b + offset) ` set bits"

subsection \<open>Paths that do not resolve\<close>

text \<open>
  The ways in which a path is malformed: its first segment is not \<open>fpga_top\<close>; it has
  fewer than three segments; its second segment does not end in \<open>_<x>__<y>_\<close>.
\<close>

definition lacks_fpga_top :: "string \<Rightarrow> bool" where
  "lacks_fpga_top path = (hd (py_split CHR ''.'' path) \<noteq> ''fpga_top'')"

definition too_few_segments :: "string \<Rightarrow> bool" where
  "too_few_segments path = (length (py_split CHR ''.'' path) < 3)"

definition lacks_location :: "string \<Rightarrow> bool" where
  "lacks_location path = (LOC_RE_fullmatch (py_split CHR ''.'' path ! 1) = None)"

text \<open>
  What a well-formed path names: the component identifier in front of the location suffix,
  and the location that the two groups of digits denote.
\<close>

definition path_component :: "string \<Rightarrow> (string \<times> loc) option" where
  "path_component path =
     (case LOC_RE_fullmatch (py_split CHR ''.'' path ! 1) of
        None \<Rightarrow> None
      | Some (name, x, y) \<Rightarrow> Some (name, (int_of_digits x, int_of_digits y)))"

text \<open>
  The block type that the identifier of a tile names: the identifier without its leading
  \<open>grid_\<close>. The resource type that the identifier of a routing resource names is its text
  in front of the first underscore.
\<close>

definition block_type :: "string \<Rightarrow> string" where
  "block_type name = drop (length ''grid_'') name"

definition resource_type :: "string \<Rightarrow> string" where
  "resource_type name = takeWhile (\<lambda>c. c \<noteq> CHR ''_'') name"

text \<open>The path names a location where the database has no tile, or no routing resource.\<close>

definition unknown_location :: "database \<Rightarrow> string \<Rightarrow> bool" where
  "unknown_location db path =
     (case path_component path of
        None \<Rightarrow> False
      | Some (name, l) \<Rightarrow>
          if startswith name ''grid_'' then map_of (tiles db) l = None
          else map_of (routing db) l = None)"

text \<open>The path names a routing resource type that its location does not have.\<close>

definition unknown_component :: "database \<Rightarrow> string \<Rightarrow> bool" where
  "unknown_component db path =
     (case path_component path of
        None \<Rightarrow> False
      | Some (name, l) \<Rightarrow>
          if startswith name ''grid_'' then False
          else (case map_of (routing db) l of
                  None \<Rightarrow> False
                | Some at_loc \<Rightarrow> map_of at_loc (resource_type name) = None))"

text \<open>
  The path names a table that the database does not have: the table of the block type for
  a tile, the table of the resource type and of the variant for a routing resource.
\<close>

definition unknown_table :: "database \<Rightarrow> string \<Rightarrow> bool" where
  "unknown_table db path =
     (case path_component path of
        None \<Rightarrow> False
      | Some (name, l) \<Rightarrow>
          if startswith name ''grid_'' then map_of (segbits db) (block_type name) = None
          else (case map_of (routing db) l of
                  None \<Rightarrow> False
                | Some at_loc \<Rightarrow>
                    (case map_of at_loc (resource_type name) of
                       None \<Rightarrow> False
                     | Some sbox \<Rightarrow>
                         map_of (segbits db) (resource_type name @ ''_'' @ sbox_variant sbox)
                           = None)))"

text \<open>Each group of digits of the location is short enough for \<open>int\<close>.\<close>

definition coordinates_fit :: "string \<Rightarrow> bool" where
  "coordinates_fit path =
     (case LOC_RE_fullmatch (py_split CHR ''.'' path ! 1) of
        None \<Rightarrow> True
      | Some (name, x, y) \<Rightarrow>
          int (length x) \<le> int_max_str_digits \<and> int (length y) \<le> int_max_str_digits)"

text \<open>\<open>old\<close> occurs in a string, at some position.\<close>

fun occurs_in :: "string \<Rightarrow> string \<Rightarrow> bool" where
  "occurs_in old [] = False"
| "occurs_in old (c # s) = (startswith (c # s) old \<or> occurs_in old s)"

text \<open>The identifier of a tile holds \<open>grid_\<close> at its start only.\<close>

definition grid_only_leading :: "string \<Rightarrow> bool" where
  "grid_only_leading path =
     (case path_component path of
        None \<Rightarrow> True
      | Some (name, l) \<Rightarrow>
          if startswith name ''grid_'' then \<not> occurs_in ''grid_'' (block_type name) else True)"

subsection \<open>Regions and lanes\<close>

text \<open>
  A region fits when its id, offset and length are not negative, its length is at most
  the stride \<open>M\<close>, its logical slice lies inside the logical array \<open>bs\<close>, and its lane
  \<open>[id * M, id * M + M)\<close> lies inside a physical array of length \<open>n\<close>.
\<close>

definition region_fits :: "int \<Rightarrow> nat list \<Rightarrow> nat \<Rightarrow> int \<times> region \<Rightarrow> bool" where
  "region_fits M bs n p =
     (0 \<le> fst p \<and> 0 \<le> region_offset (snd p) \<and> 0 \<le> region_length (snd p)
      \<and> region_length (snd p) \<le> M
      \<and> region_offset (snd p) + region_length (snd p) \<le> int (length bs)
      \<and> fst p * M + M \<le> int n)"

text \<open>Position \<open>k\<close> lies in the data part \<open>[id * M, id * M + length)\<close> of a region's lane.\<close>

definition in_lane_data :: "int \<Rightarrow> int \<times> region \<Rightarrow> nat \<Rightarrow> bool" where
  "in_lane_data M p k = (fst p * M \<le> int k \<and> int k < fst p * M + region_length (snd p))"

text \<open>The stride of the physical array: the maximum region length.\<close>

definition max_len :: "database \<Rightarrow> int" where
  "max_len db = Max ((\<lambda>p. region_length (snd p)) ` set (regions db))"

subsection \<open>What a statement writes\<close>









subsection \<open>What the disassembler lists\<close>
















section \<open>Example databases and statements\<close>

text \<open>A statement with value 1 and no bit range, and the canonical form of such statements.\<close>

definition stmt :: "string \<Rightarrow> SetFasmFeature" where
  "stmt f = \<lparr>sf_feature = f, sf_start = None, sf_end = None, sf_value = 1\<rparr>"

definition fasm_line :: "string \<Rightarrow> FasmLine" where
  "fasm_line f = \<lparr>set_feature = Some (stmt f)\<rparr>"

definition canon_single :: canonical_features where
  "canon_single sf = [sf]"

definition bit1 :: "int \<Rightarrow> Bit" where
  "bit1 i = \<lparr>idx = i, val = True\<rparr>"

definition bit0 :: "int \<Rightarrow> Bit" where
  "bit0 i = \<lparr>idx = i, val = False\<rparr>"

text \<open>A device whose one tile has a block type that contains \<open>grid_\<close>.\<close>

definition db_grid :: database where
  "db_grid =
     \<lparr>tiles = [((0, 0), \<lparr>tile_type = ''io_grid_top'', tile_region = 0, tile_offset = 0\<rparr>)],
      routing = [],
      segbits = [(''io_grid_top'', [(''EN'', [bit1 0])])],
      bitstream_size = 1,
      regions = [(0, \<lparr>region_offset = 0, region_length = 1\<rparr>)]\<rparr>"

text \<open>
  Two tiles of one block type whose bits overlap at address 1: the tile at (0,0) starts at
  offset 0 and the tile at (1,0) at offset 1. The feature \<open>F\<close> sets its bit 0 and clears
  its bit 1.
\<close>

definition db_overlap :: database where
  "db_overlap =
     \<lparr>tiles = [((0, 0), \<lparr>tile_type = ''T'', tile_region = 0, tile_offset = 0\<rparr>),
               ((1, 0), \<lparr>tile_type = ''T'', tile_region = 0, tile_offset = 1\<rparr>)],
      routing = [],
      segbits = [(''T'', [(''F'', [bit1 0, bit0 1])])],
      bitstream_size = 3,
      regions = [(0, \<lparr>region_offset = 0, region_length = 3\<rparr>)]\<rparr>"

text \<open>
  An example of a canonical expansion, for the examples below: a statement with a bit
  range gives one single-bit statement of value 1 for every set bit of its value, in
  ascending order of the index; any other statement is already canonical.
\<close>

definition canon_range :: canonical_features where
  "canon_range sf =
     (case (sf_start sf, sf_end sf) of
        (Some s, Some e) \<Rightarrow>
          map (\<lambda>i. sf\<lparr>sf_start := Some i, sf_end := None, sf_value := 1\<rparr>)
            (filter (\<lambda>i. (sf_value sf div 2 ^ nat (i - s)) mod 2 = 1) [s..e])
      | _ \<Rightarrow> [sf])"

text \<open>The device of the spec's concrete scenario, with a two-bit feature \<open>A\<close> of which
  the table only knows bit 0.\<close>

definition db_one :: database where
  "db_one =
     \<lparr>tiles = [((0, 0), \<lparr>tile_type = ''T'', tile_region = 0, tile_offset = 0\<rparr>)],
      routing = [],
      segbits = [(''T'', [(''F0'', [bit1 0]), (''F1'', [bit1 1]), (''A[0]'', [bit1 2])])],
      bitstream_size = 4,
      regions = [(0, \<lparr>region_offset = 0, region_length = 4\<rparr>)]\<rparr>"

definition line_A :: FasmLine where
  "line_A = \<lparr>set_feature = Some \<lparr>sf_feature = ''fpga_top.grid_T_0__0_.A'',
                sf_start = Some 0, sf_end = Some 1, sf_value = 3\<rparr>\<rparr>"

definition table_T :: segbits_table where
  "table_T = [(''F0'', [bit1 0]), (''F1'', [bit1 1]), (''A[0]'', [bit1 2])]"

definition feature_A :: "int \<Rightarrow> SetFasmFeature" where
  "feature_A i = \<lparr>sf_feature = ''fpga_top.grid_T_0__0_.A'',
                  sf_start = Some i, sf_end = None, sf_value = 1\<rparr>"

text \<open>The assembler of \<open>db_one\<close> after bit 0 of \<open>A\<close> has been applied.\<close>

definition st_A :: assembler where
  "st_A = fst (process_features table_T 0 [feature_A 0] (init_assembler db_one))"

text \<open>A statement of value 0 whose path lacks \<open>fpga_top\<close>.\<close>

definition line_zero :: FasmLine where
  "line_zero = \<lparr>set_feature = Some \<lparr>sf_feature = ''top.grid_T_0__0_.F0'',
                   sf_start = None, sf_end = None, sf_value = 0\<rparr>\<rparr>"

text \<open>A tile with two features that write address 0: \<open>SET\<close> sets it, \<open>CLR\<close> clears it.\<close>

definition table_cross :: segbits_table where
  "table_cross = [(''SET'', [bit1 0]), (''CLR'', [bit0 0])]"

definition db_cross :: database where
  "db_cross =
     \<lparr>tiles = [((0, 0), \<lparr>tile_type = ''T'', tile_region = 0, tile_offset = 0\<rparr>)],
      routing = [],
      segbits = [(''T'', table_cross)],
      bitstream_size = 2,
      regions = [(0, \<lparr>region_offset = 0, region_length = 2\<rparr>)]\<rparr>"

text \<open>A device with two scan chains, of 3 bits and of 1 bit.\<close>

definition db_two :: database where
  "db_two =
     \<lparr>tiles = [], routing = [], segbits = [], bitstream_size = 4,
      regions = [(0, \<lparr>region_offset = 0, region_length = 3\<rparr>),
                 (1, \<lparr>region_offset = 3, region_length = 1\<rparr>)]\<rparr>"



text \<open>
  A device whose one tile has the block type \<open>io_top\<close>, and a path that names the block
  type \<open>io_grid_top\<close> there.
\<close>

definition db_io :: database where
  "db_io =
     \<lparr>tiles = [((0, 0), \<lparr>tile_type = ''io_top'', tile_region = 0, tile_offset = 0\<rparr>)],
      routing = [],
      segbits = [(''io_top'', [(''EN'', [bit1 0])])],
      bitstream_size = 1,
      regions = [(0, \<lparr>region_offset = 0, region_length = 1\<rparr>)]\<rparr>"

text \<open>A path whose first coordinate has 4301 digits.\<close>

definition path_long :: string where
  "path_long = ''fpga_top.grid_T_'' @ replicate 4301 CHR ''1'' @ ''__5_.F0''"





section \<open>Properties\<close>

subsection \<open>Helper facts\<close>


lemma apply_bit_not_LookupError: "snd (apply_bit key offset b st) \<noteq> Some LookupError"
  by (auto simp: apply_bit_def check_conflict_def store_bit_def Let_def
           split: option.splits if_splits)

lemma apply_bits_not_LookupError: "snd (apply_bits key offset bits st) \<noteq> Some LookupError"
proof (induction bits arbitrary: st)
  case Nil
  show ?case by simp
next
  case (Cons b bits)
  obtain st' r where a: "apply_bit key offset b st = (st', r)"
    by (cases "apply_bit key offset b st")
  show ?case
  proof (cases r)
    case None
    with a Cons show ?thesis by simp
  next
    case (Some e)
    with a apply_bit_not_LookupError [of key offset b st] show ?thesis by simp
  qed
qed

lemma process_one_feature_LookupError:
  assumes "sf_value f = 1"
  shows "snd (process_one_feature sb offset f st) = Some LookupError
         \<longleftrightarrow> snd (lookup_segbits sb (base_name_of (sf_feature f)) (sf_start f)) = None"
  using assms apply_bits_not_LookupError
  by (auto simp: process_one_feature_def split: prod.splits option.splits)

lemma lookup_segbits_find:
  "lookup_segbits sb base_name start =
     (case find (\<lambda>k. map_of sb k \<noteq> None) (candidate_keys base_name start) of
        Some k \<Rightarrow> (k, map_of sb k)
      | None \<Rightarrow> (indexed_key base_name (case start of None \<Rightarrow> 0 | Some i \<Rightarrow> i), None))"
  by (auto simp: lookup_segbits_def candidate_keys_def Let_def split: option.splits)

lemma lookup_segbits_None_iff:
  "snd (lookup_segbits sb base_name start) = None
     \<longleftrightarrow> (\<forall>k \<in> set (candidate_keys base_name start). map_of sb k = None)"
  by (auto simp: lookup_segbits_def candidate_keys_def Let_def split: option.splits)

lemma match_segbits_True_iff:
  "(match_segbits bs pat offset = Inr True)
     = (\<forall>b \<in> set pat. read_at bs (idx b + offset) = Some (int_of_bool (val b)))"
proof (induction pat)
  case Nil
  show ?case by simp
next
  case (Cons b pat)
  show ?case
  proof (cases "read_at bs (idx b + offset) = Some (int_of_bool (val b))")
    case True
    then have "match_segbits bs (b # pat) offset = match_segbits bs pat offset"
      by (auto simp: read_at_def Let_def split: if_splits option.splits)
    with True Cons show ?thesis by simp
  next
    case False
    then have "match_segbits bs (b # pat) offset \<noteq> Inr True"
      by (auto simp: read_at_def Let_def split: if_splits option.splits)
    with False show ?thesis by simp
  qed
qed

subsection \<open>The location pattern\<close>

text \<open>
  \<open>LOC_RE_fullmatch\<close> gives the groups of the one way to read a string as
  \<open>name _ x __ y _\<close> with a nonempty \<open>name\<close> free of newlines and nonempty digit strings
  \<open>x\<close> and \<open>y\<close>, and \<open>None\<close> when there is no such reading: the language and the groups
  of the regular expression \<open>(.+)_([0-9]+)__([0-9]+)_\<close>.
\<close>

lemma not_digit_underscore: "\<not> is_digit CHR ''_''"
  by (simp add: is_digit_def)

lemma takeWhile_digits:
  "\<forall>c \<in> set ds. is_digit c \<Longrightarrow> takeWhile is_digit (ds @ CHR ''_'' # r) = ds"
  by (induction ds) (simp_all add: not_digit_underscore)

lemma dropWhile_digits:
  "\<forall>c \<in> set ds. is_digit c \<Longrightarrow> dropWhile is_digit (ds @ CHR ''_'' # r) = CHR ''_'' # r"
  by (induction ds) (simp_all add: not_digit_underscore)

lemma LOC_RE_fullmatch_intro:
  assumes "name \<noteq> []" and "CHR 0x0A \<notin> set name"
    and "x \<noteq> []" and "\<forall>c \<in> set x. is_digit c"
    and "y \<noteq> []" and "\<forall>c \<in> set y. is_digit c"
  shows "LOC_RE_fullmatch (name @ ''_'' @ x @ ''__'' @ y @ ''_'') = Some (name, x, y)"
proof -
  define r5 where "r5 = rev name"
  define r4 where "r4 = CHR ''_'' # r5"
  define r3 where "r3 = rev x @ r4"
  define r2 where "r2 = CHR ''_'' # CHR ''_'' # r3"
  define r1 where "r1 = rev y @ r2"
  have rs: "rev (name @ ''_'' @ x @ ''__'' @ y @ ''_'') = CHR ''_'' # r1"
    by (simp add: r1_def r2_def r3_def r4_def r5_def)
  have ry: "\<forall>c \<in> set (rev y). is_digit c" and rx: "\<forall>c \<in> set (rev x). is_digit c"
    using assms(4,6) by simp_all
  have ty: "takeWhile is_digit r1 = rev y"
    unfolding r1_def r2_def by (rule takeWhile_digits [OF ry])
  have dy: "dropWhile is_digit r1 = r2"
    unfolding r1_def r2_def by (rule dropWhile_digits [OF ry])
  have tx: "takeWhile is_digit r3 = rev x"
    unfolding r3_def r4_def by (rule takeWhile_digits [OF rx])
  have dx: "dropWhile is_digit r3 = r4"
    unfolding r3_def r4_def by (rule dropWhile_digits [OF rx])
  have n5: "r5 \<noteq> []" "CHR 0x0A \<notin> set r5"
    using assms(1,2) by (simp_all add: r5_def)
  show ?thesis
    unfolding LOC_RE_fullmatch_def rs
    using assms(3,5) n5
    by (simp add: ty dy tx dx r2_def r4_def Let_def r5_def)
qed

lemma LOC_RE_fullmatch_elim:
  assumes "LOC_RE_fullmatch s = Some (name, x, y)"
  shows "s = name @ ''_'' @ x @ ''__'' @ y @ ''_'' \<and> name \<noteq> [] \<and> CHR 0x0A \<notin> set name
         \<and> x \<noteq> [] \<and> (\<forall>c \<in> set x. is_digit c) \<and> y \<noteq> [] \<and> (\<forall>c \<in> set y. is_digit c)"
proof -
  from assms obtain r1 where rs: "rev s = CHR ''_'' # r1"
    by (cases "rev s") (auto simp: LOC_RE_fullmatch_def split: if_splits)
  define y' where "y' = takeWhile is_digit r1"
  define r2 where "r2 = dropWhile is_digit r1"
  have a1: "(if y' = [] then None
            else (case r2 of
                c1 # c2 # r3 \<Rightarrow>
                  if c1 \<noteq> CHR ''_'' \<or> c2 \<noteq> CHR ''_'' then None
                  else
                    let x = takeWhile is_digit r3; r4 = dropWhile is_digit r3 in
                    if x = [] then None
                    else (case r4 of
                        [] \<Rightarrow> None
                      | c3 # r5 \<Rightarrow>
                          if c3 \<noteq> CHR ''_'' \<or> r5 = [] \<or> CHR 0x0A \<in> set r5 then None
                          else Some (rev r5, rev x, rev y'))
              | _ \<Rightarrow> None)) = Some (name, x, y)"
    using assms unfolding LOC_RE_fullmatch_def rs y'_def r2_def by (simp add: Let_def)
  then have y0: "y' \<noteq> []"
    by (auto split: if_splits)
  from a1 y0 obtain r3 where r2: "r2 = CHR ''_'' # CHR ''_'' # r3"
    by (cases r2 rule: list.exhaust [case_product list.exhaust])
       (auto split: if_splits list.splits)
  define x' where "x' = takeWhile is_digit r3"
  define r4 where "r4 = dropWhile is_digit r3"
  have a2: "(if x' = [] then None
             else (case r4 of
                        [] \<Rightarrow> None
                      | c3 # r5 \<Rightarrow>
                          if c3 \<noteq> CHR ''_'' \<or> r5 = [] \<or> CHR 0x0A \<in> set r5 then None
                          else Some (rev r5, rev x', rev y'))) = Some (name, x, y)"
    using a1 y0 unfolding r2 x'_def r4_def by (simp add: Let_def)
  then have x0: "x' \<noteq> []"
    by (auto split: if_splits)
  from a2 x0 obtain r5 where r4: "r4 = CHR ''_'' # r5" and r5: "r5 \<noteq> []" "CHR 0x0A \<notin> set r5"
    and res: "name = rev r5" "x = rev x'" "y = rev y'"
    by (cases r4) (auto split: if_splits)
  have e1: "r1 = y' @ r2"
    unfolding y'_def r2_def by simp
  have e3: "r3 = x' @ r4"
    unfolding x'_def r4_def by simp
  have "rev s = CHR ''_'' # y' @ CHR ''_'' # CHR ''_'' # x' @ CHR ''_'' # r5"
    unfolding rs e1 r2 e3 r4 by simp
  then have "rev (rev s) = rev (CHR ''_'' # y' @ CHR ''_'' # CHR ''_'' # x' @ CHR ''_'' # r5)"
    by simp
  then have s: "s = name @ ''_'' @ x @ ''__'' @ y @ ''_''"
    by (simp add: res)
  have dy: "\<forall>c \<in> set y. is_digit c"
    unfolding res y'_def using set_takeWhileD [of _ is_digit r1] by auto
  have dx: "\<forall>c \<in> set x. is_digit c"
    unfolding res x'_def using set_takeWhileD [of _ is_digit r3] by auto
  from s r5 x0 y0 dx dy res show ?thesis
    by simp
qed

lemma LOC_RE_fullmatch_iff:
  "LOC_RE_fullmatch s = Some (name, x, y)
     \<longleftrightarrow> s = name @ ''_'' @ x @ ''__'' @ y @ ''_'' \<and> name \<noteq> [] \<and> CHR 0x0A \<notin> set name
         \<and> x \<noteq> [] \<and> (\<forall>c \<in> set x. is_digit c) \<and> y \<noteq> [] \<and> (\<forall>c \<in> set y. is_digit c)"
  using LOC_RE_fullmatch_intro [of name x y] LOC_RE_fullmatch_elim [of s name x y]
  by blast

subsection \<open>The single-bit lookup\<close>

text \<open>
  C6. For a canonical single-bit statement (value 1), the lookup of lines 281 to 296 goes
  through the candidate keys in order: the bare base name, present exactly when the index
  is absent or 0, then \<open>base[index]\<close> with index 0 when absent. Its result is the first
  candidate that the table resolves, and processing the statement ends in LookupError
  exactly when the table resolves none of the candidates.
\<close>

theorem C6_single_bit_lookup:
  assumes "sf_value f = 1"
  shows "lookup_segbits sb (base_name_of (sf_feature f)) (sf_start f) =
           (case find (\<lambda>k. map_of sb k \<noteq> None)
                   (candidate_keys (base_name_of (sf_feature f)) (sf_start f)) of
              Some k \<Rightarrow> (k, map_of sb k)
            | None \<Rightarrow> (indexed_key (base_name_of (sf_feature f))
                         (case sf_start f of None \<Rightarrow> 0 | Some i \<Rightarrow> i), None))
         \<and> (snd (process_one_feature sb offset f st) = Some LookupError
              \<longleftrightarrow> (\<forall>k \<in> set (candidate_keys (base_name_of (sf_feature f)) (sf_start f)).
                     map_of sb k = None))"
proof (rule conjI)
  show "lookup_segbits sb (base_name_of (sf_feature f)) (sf_start f) =
           (case find (\<lambda>k. map_of sb k \<noteq> None)
                   (candidate_keys (base_name_of (sf_feature f)) (sf_start f)) of
              Some k \<Rightarrow> (k, map_of sb k)
            | None \<Rightarrow> (indexed_key (base_name_of (sf_feature f))
                         (case sf_start f of None \<Rightarrow> 0 | Some i \<Rightarrow> i), None))"
    by (rule lookup_segbits_find)
  show "snd (process_one_feature sb offset f st) = Some LookupError
          \<longleftrightarrow> (\<forall>k \<in> set (candidate_keys (base_name_of (sf_feature f)) (sf_start f)).
                 map_of sb k = None)"
    unfolding process_one_feature_LookupError [OF assms]
    by (rule lookup_segbits_None_iff)
qed

theorem C6_single_bit_lookup_witness:
  "sf_value (stmt ''fpga_top.grid_T_0__0_.F'') = 1
   \<and> candidate_keys ''F'' None = [''F'', ''F[0]'']
   \<and> lookup_segbits [(''F[0]'', [bit1 3])] ''F'' None = (''F[0]'', Some [bit1 3])
   \<and> snd (process_one_feature [(''F[0]'', [bit1 3])] 0 (stmt ''fpga_top.grid_T_0__0_.F'')
             \<lparr>bitstream = [0, 0, 0, 0], features_by_bits = Map.empty\<rparr>) \<noteq> Some LookupError
   \<and> snd (process_one_feature [(''G'', [bit1 3])] 0 (stmt ''fpga_top.grid_T_0__0_.F'')
             \<lparr>bitstream = [0, 0, 0, 0], features_by_bits = Map.empty\<rparr>) = Some LookupError"
proof -
  have v: "sf_value (stmt ''fpga_top.grid_T_0__0_.F'') = 1"
    by (simp add: stmt_def)
  have b: "base_name_of (sf_feature (stmt ''fpga_top.grid_T_0__0_.F'')) = ''F''"
    by (simp add: stmt_def base_name_of_def)
  have s: "sf_start (stmt ''fpga_top.grid_T_0__0_.F'') = None"
    by (simp add: stmt_def)
  have c: "candidate_keys ''F'' None = [''F'', ''F[0]'']"
    by code_simp
  show ?thesis
    using C6_single_bit_lookup [OF v, of "[(''F[0]'', [bit1 3])]" 0
            "\<lparr>bitstream = [0, 0, 0, 0], features_by_bits = Map.empty\<rparr>"]
          C6_single_bit_lookup [OF v, of "[(''G'', [bit1 3])]" 0
            "\<lparr>bitstream = [0, 0, 0, 0], features_by_bits = Map.empty\<rparr>"]
    by (simp add: v b s c)
qed

subsection \<open>Pattern matching in the disassembler\<close>

text \<open>
  C7. \<open>match_segbits\<close> returns true if and only if every bit of the pattern reads its
  required value at the address \<open>bit.idx + offset\<close> of the bit array; an empty pattern
  always matches.
\<close>

theorem C7_match_segbits:
  "(match_segbits bs pat offset = Inr True)
     = (\<forall>b \<in> set pat. read_at bs (idx b + offset) = Some (int_of_bool (val b)))
   \<and> match_segbits bs [] offset = Inr True"
  using match_segbits_True_iff [of bs pat offset] by simp

theorem C7_match_segbits_witness:
  "match_segbits [1, 0, 0, 1] [bit1 0, bit0 1] 2 = Inr False
   \<and> read_at [1, 0, 0, 1] (idx (bit1 0) + 2) = Some 0
   \<and> match_segbits [1, 0, 0, 1] [bit0 0, bit1 1] 2 = Inr True"
proof -
  have h: "\<forall>b \<in> set [bit0 0, bit1 1].
             read_at [1, 0, 0, 1] (idx b + 2) = Some (int_of_bool (val b))"
    by code_simp
  have t: "match_segbits [1, 0, 0, 1] [bit0 0, bit1 1] 2 = Inr True"
    using C7_match_segbits [of "[1, 0, 0, 1]" "[bit0 0, bit1 1]" 2] h by blast
  have f: "match_segbits [1, 0, 0, 1] [bit1 0, bit0 1] 2 = Inr False"
    by code_simp
  have r: "read_at [1, 0, 0, 1] (idx (bit1 0) + 2) = Some 0"
    by code_simp
  show ?thesis
    using t f r by blast
qed

subsection \<open>The table name of a tile\<close>

text \<open>
  C8, at a block type that contains \<open>grid_\<close> again. The identifier of the path
  \<open>fpga_top.grid_io_grid_top_0__0_.EN\<close> is \<open>grid_io_grid_top\<close>; removing its leading
  \<open>grid_\<close> gives the block type \<open>io_grid_top\<close> of the tile there. The code's
  \<open>name.replace("grid_", "")\<close> removes the inner occurrence as well and looks up the table
  \<open>io_top\<close>, which does not exist, so the statement is a LookupError, although the
  disassembler emits exactly this path for the tile.
\<close>

theorem C8_replace_removes_every_grid:
  "tile_segbits_name ''grid_io_grid_top'' = ''io_top''
   \<and> resolve_feature db_grid ''fpga_top.grid_io_grid_top_0__0_.EN'' = Inl LookupError
   \<and> disassemble_bitstream db_grid [1] False = Inr [''fpga_top.grid_io_grid_top_0__0_.EN'']"
  by code_simp

subsection \<open>A conflict within one feature key\<close>

text \<open>
  C2, at two statements that share the key \<open>F\<close> and write address 1 with different
  values: \<open>fpga_top.grid_T_0__0_.F\<close> clears it, \<open>fpga_top.grid_T_1__0_.F\<close> sets it. The
  assembly stops with AttributeError and not with FeatureConflict, because the message of
  the conflict is built from \<open>bit.id\<close>, which a \<open>Bit\<close> does not have. When the values
  agree (the first statement given twice) there is no error.
\<close>

theorem C2_conflict_raises_AttributeError:
  "snd (assemble_bitstream db_overlap canon_single
          [fasm_line ''fpga_top.grid_T_0__0_.F'', fasm_line ''fpga_top.grid_T_1__0_.F'']
          (init_assembler db_overlap)) = Inl AttributeError
   \<and> snd (assemble_bitstream db_overlap canon_single
          [fasm_line ''fpga_top.grid_T_0__0_.F'', fasm_line ''fpga_top.grid_T_0__0_.F'']
          (init_assembler db_overlap)) = Inr []"
  by code_simp

subsection \<open>One bit applied\<close>

lemma apply_bit_length:
  "length (bitstream (fst (apply_bit key offset b st))) = length (bitstream st)"
  by (auto simp: apply_bit_def check_conflict_def store_bit_def Let_def
           split: option.splits if_splits)

text \<open>
  A bit in range is stored without error unless its key is already recorded for the
  address with the other value.
\<close>

lemma apply_bit_ok:
  assumes r: "0 \<le> idx b + offset" "idx b + offset < int (length (bitstream st))"
    and c: "key \<in> keys_at st (idx b + offset)
            \<Longrightarrow> bitstream st ! nat (idx b + offset) = int_of_bool (val b)"
  shows "apply_bit key offset b st =
           (st\<lparr>bitstream := (bitstream st)[nat (idx b + offset) := int_of_bool (val b)],
               features_by_bits := (features_by_bits st)
                 (idx b + offset \<mapsto> insert key (keys_at st (idx b + offset)))\<rparr>, None)"
proof (cases "features_by_bits st (idx b + offset)")
  case None
  with r show ?thesis
    by (simp add: apply_bit_def store_bit_def py_index_def Let_def keys_at_def)
next
  case (Some keys)
  with r c have "check_conflict key b (idx b + offset) keys st = None"
    by (auto simp: check_conflict_def py_index_def keys_at_def)
  with Some r show ?thesis
    by (simp add: apply_bit_def store_bit_def py_index_def Let_def keys_at_def)
qed

lemma apply_bit_ok_ex:
  assumes r: "0 \<le> idx b + offset" "idx b + offset < int (length (bitstream st))"
    and c: "key \<in> keys_at st (idx b + offset)
            \<Longrightarrow> bitstream st ! nat (idx b + offset) = int_of_bool (val b)"
  shows "\<exists>st1. apply_bit key offset b st = (st1, None)
           \<and> length (bitstream st1) = length (bitstream st)
           \<and> bitstream st1 ! nat (idx b + offset) = int_of_bool (val b)
           \<and> (\<forall>a. 0 \<le> a \<longrightarrow> a \<noteq> idx b + offset
                  \<longrightarrow> bitstream st1 ! nat a = bitstream st ! nat a)
           \<and> features_by_bits st1 = (features_by_bits st)
                 (idx b + offset \<mapsto> insert key (keys_at st (idx b + offset)))"
proof -
  have n: "nat (idx b + offset) < length (bitstream st)"
    using r by linarith
  have d: "\<And>a. 0 \<le> a \<Longrightarrow> a \<noteq> idx b + offset \<Longrightarrow> nat (idx b + offset) \<noteq> nat a"
    using r by linarith
  let ?st1 = "st\<lparr>bitstream := (bitstream st)[nat (idx b + offset) := int_of_bool (val b)],
               features_by_bits := (features_by_bits st)
                 (idx b + offset \<mapsto> insert key (keys_at st (idx b + offset)))\<rparr>"
  have "apply_bit key offset b st = (?st1, None)"
    by (rule apply_bit_ok [OF r c])
  moreover have "length (bitstream ?st1) = length (bitstream st)"
    by simp
  moreover have "bitstream ?st1 ! nat (idx b + offset) = int_of_bool (val b)"
    using n by simp
  moreover have "\<forall>a. 0 \<le> a \<longrightarrow> a \<noteq> idx b + offset
                  \<longrightarrow> bitstream ?st1 ! nat a = bitstream st ! nat a"
    using d by simp
  moreover have "features_by_bits ?st1 = (features_by_bits st)
                 (idx b + offset \<mapsto> insert key (keys_at st (idx b + offset)))"
    by simp
  ultimately show ?thesis by blast
qed

subsection \<open>A pattern applied\<close>

lemma apply_bits_length:
  "length (bitstream (fst (apply_bits key offset bits st))) = length (bitstream st)"
proof (induction bits arbitrary: st)
  case Nil
  show ?case by simp
next
  case (Cons b bits)
  obtain st' r where a: "apply_bit key offset b st = (st', r)"
    by (cases "apply_bit key offset b st")
  from a have l: "length (bitstream st') = length (bitstream st)"
    using apply_bit_length [of key offset b st] by simp
  show ?case
  proof (cases r)
    case None
    with a l Cons [of st'] show ?thesis by simp
  next
    case (Some e)
    with a l show ?thesis by simp
  qed
qed

text \<open>
  A pattern whose addresses are in range, whose bits agree with each other where they
  share an index, and whose key is not recorded with another value at any of its
  addresses, is applied without error: every bit of it is stored, every other cell is
  unchanged, and the key is added at exactly its addresses.
\<close>

lemma apply_bits_ok:
  assumes "\<forall>b \<in> set bits. 0 \<le> idx b + offset \<and> idx b + offset < int (length (bitstream st))"
    and "\<forall>b \<in> set bits. key \<in> keys_at st (idx b + offset)
           \<longrightarrow> bitstream st ! nat (idx b + offset) = int_of_bool (val b)"
    and "\<forall>b \<in> set bits. \<forall>b' \<in> set bits. idx b = idx b' \<longrightarrow> val b = val b'"
  shows "\<exists>st'. apply_bits key offset bits st = (st', None)
           \<and> length (bitstream st') = length (bitstream st)
           \<and> (\<forall>b \<in> set bits. bitstream st' ! nat (idx b + offset) = int_of_bool (val b))
           \<and> (\<forall>a. 0 \<le> a \<longrightarrow> a \<notin> addresses offset bits
                  \<longrightarrow> bitstream st' ! nat a = bitstream st ! nat a)
           \<and> (\<forall>a. features_by_bits st' a =
                  (if a \<in> addresses offset bits then Some (insert key (keys_at st a))
                   else features_by_bits st a))"
  using assms
proof (induction bits arbitrary: st)
  case Nil
  show ?case by (simp add: addresses_def)
next
  case (Cons b bits)
  define a0 where "a0 = idx b + offset"
  have r: "0 \<le> idx b + offset" "idx b + offset < int (length (bitstream st))"
    using Cons.prems(1) by simp_all
  have c: "key \<in> keys_at st (idx b + offset)
             \<Longrightarrow> bitstream st ! nat (idx b + offset) = int_of_bool (val b)"
    using Cons.prems(2) by simp
  from apply_bit_ok_ex [OF r c] obtain st1 where
    s1: "apply_bit key offset b st = (st1, None)"
    and len1: "length (bitstream st1) = length (bitstream st)"
    and bs1': "bitstream st1 ! nat a0 = int_of_bool (val b)"
    and bs1: "\<forall>a. 0 \<le> a \<longrightarrow> a \<noteq> a0 \<longrightarrow> bitstream st1 ! nat a = bitstream st ! nat a"
    and f1: "features_by_bits st1 = (features_by_bits st)(a0 \<mapsto> insert key (keys_at st a0))"
    unfolding a0_def by blast
  have k1: "\<And>a. a \<noteq> a0 \<Longrightarrow> keys_at st1 a = keys_at st a"
    by (simp add: keys_at_def f1)
  have k1': "keys_at st1 a0 = insert key (keys_at st a0)"
    by (simp add: keys_at_def f1)
  have p1: "\<forall>b' \<in> set bits. 0 \<le> idx b' + offset
              \<and> idx b' + offset < int (length (bitstream st1))"
    using Cons.prems(1) len1 by simp
  have same: "\<And>b'. b' \<in> set bits \<Longrightarrow> idx b' = idx b \<Longrightarrow> val b' = val b"
    using Cons.prems(3) by (meson list.set_intros)
  have p2: "\<forall>b' \<in> set bits. key \<in> keys_at st1 (idx b' + offset)
              \<longrightarrow> bitstream st1 ! nat (idx b' + offset) = int_of_bool (val b')"
  proof (intro ballI impI)
    fix b'
    assume m: "b' \<in> set bits" and k: "key \<in> keys_at st1 (idx b' + offset)"
    show "bitstream st1 ! nat (idx b' + offset) = int_of_bool (val b')"
    proof (cases "idx b' = idx b")
      case True
      have "val b' = val b" by (rule same [OF m True])
      moreover have "idx b' + offset = a0" using True by (simp add: a0_def)
      ultimately show ?thesis using bs1' by simp
    next
      case False
      then have ne: "idx b' + offset \<noteq> a0" by (simp add: a0_def)
      have nn: "0 \<le> idx b' + offset" using m Cons.prems(1) by simp
      have "key \<in> keys_at st (idx b' + offset)"
        using k k1 [OF ne] by simp
      then have "bitstream st ! nat (idx b' + offset) = int_of_bool (val b')"
        using m Cons.prems(2) by simp
      moreover have "bitstream st1 ! nat (idx b' + offset) = bitstream st ! nat (idx b' + offset)"
        using bs1 nn ne by blast
      ultimately show ?thesis by simp
    qed
  qed
  have p3: "\<forall>b' \<in> set bits. \<forall>b'' \<in> set bits. idx b' = idx b'' \<longrightarrow> val b' = val b''"
    using Cons.prems(3) by (meson list.set_intros)
  from Cons.IH [OF p1 p2 p3] obtain st' where
    ih1: "apply_bits key offset bits st1 = (st', None)"
    and ih2: "length (bitstream st') = length (bitstream st1)"
    and ih3: "\<forall>b' \<in> set bits. bitstream st' ! nat (idx b' + offset) = int_of_bool (val b')"
    and ih4: "\<forall>a. 0 \<le> a \<longrightarrow> a \<notin> addresses offset bits
                \<longrightarrow> bitstream st' ! nat a = bitstream st1 ! nat a"
    and ih5: "\<forall>a. features_by_bits st' a =
                (if a \<in> addresses offset bits then Some (insert key (keys_at st1 a))
                 else features_by_bits st1 a)"
    by blast
  have ad: "addresses offset (b # bits) = insert a0 (addresses offset bits)"
    by (simp add: addresses_def a0_def)
  have c1: "apply_bits key offset (b # bits) st = (st', None)"
    using s1 ih1 by simp
  have c2: "length (bitstream st') = length (bitstream st)"
    using ih2 len1 by simp
  have c3: "\<forall>b' \<in> set (b # bits). bitstream st' ! nat (idx b' + offset) = int_of_bool (val b')"
  proof
    fix b'
    assume m: "b' \<in> set (b # bits)"
    show "bitstream st' ! nat (idx b' + offset) = int_of_bool (val b')"
    proof (cases "b' \<in> set bits")
      case True
      with ih3 show ?thesis by blast
    next
      case False
      with m have e: "b' = b" by simp
      show ?thesis
      proof (cases "a0 \<in> addresses offset bits")
        case True
        then obtain b'' where m'': "b'' \<in> set bits" and i: "idx b'' = idx b"
          by (auto simp: addresses_def a0_def)
        have "val b'' = val b" by (rule same [OF m'' i])
        moreover have "bitstream st' ! nat (idx b'' + offset) = int_of_bool (val b'')"
          using ih3 m'' by blast
        ultimately show ?thesis using i e by simp
      next
        case False
        have "0 \<le> a0" using r by (simp add: a0_def)
        with ih4 False have "bitstream st' ! nat a0 = bitstream st1 ! nat a0" by blast
        with bs1' e show ?thesis by (simp add: a0_def)
      qed
    qed
  qed
  have c4: "\<forall>a. 0 \<le> a \<longrightarrow> a \<notin> addresses offset (b # bits)
              \<longrightarrow> bitstream st' ! nat a = bitstream st ! nat a"
  proof (intro allI impI)
    fix a :: int
    assume nn: "0 \<le> a" and na: "a \<notin> addresses offset (b # bits)"
    from na ad have ne: "a \<noteq> a0" and nb: "a \<notin> addresses offset bits" by simp_all
    from ih4 nn nb have "bitstream st' ! nat a = bitstream st1 ! nat a" by blast
    moreover from bs1 nn ne have "bitstream st1 ! nat a = bitstream st ! nat a" by blast
    ultimately show "bitstream st' ! nat a = bitstream st ! nat a" by simp
  qed
  have c5: "\<forall>a. features_by_bits st' a =
              (if a \<in> addresses offset (b # bits) then Some (insert key (keys_at st a))
               else features_by_bits st a)"
  proof
    fix a
    show "features_by_bits st' a =
            (if a \<in> addresses offset (b # bits) then Some (insert key (keys_at st a))
             else features_by_bits st a)"
    proof (cases "a = a0")
      case True
      have "features_by_bits st' a0 = Some (insert key (keys_at st a0))"
      proof (cases "a0 \<in> addresses offset bits")
        case True
        with ih5 have "features_by_bits st' a0 = Some (insert key (keys_at st1 a0))" by simp
        with k1' show ?thesis by simp
      next
        case False
        with ih5 have "features_by_bits st' a0 = features_by_bits st1 a0" by simp
        with f1 show ?thesis by simp
      qed
      with True ad show ?thesis by simp
    next
      case False
      have "features_by_bits st1 a = features_by_bits st a"
        using False f1 by simp
      with False ih5 k1 [OF False] ad show ?thesis by simp
    qed
  qed
  from c1 c2 c3 c4 c5 show ?case by blast
qed

subsection \<open>Statements and lines\<close>

lemma process_features_append:
  "process_features sb offset (xs @ ys) st =
     (case process_features sb offset xs st of
        (st', Some e) \<Rightarrow> (st', Some e)
      | (st', None) \<Rightarrow> process_features sb offset ys st')"
proof (induction xs arbitrary: st)
  case Nil
  show ?case by simp
next
  case (Cons x xs)
  obtain st1 r where p: "process_one_feature sb offset x st = (st1, r)"
    by (cases "process_one_feature sb offset x st")
  show ?case
  proof (cases r)
    case None
    with p Cons [of st1] show ?thesis by simp
  next
    case (Some e)
    with p show ?thesis by simp
  qed
qed

lemma process_one_feature_unknown:
  assumes "sf_value f = 1"
    and "\<forall>k \<in> set (candidate_keys (base_name_of (sf_feature f)) (sf_start f)). map_of sb k = None"
  shows "process_one_feature sb offset f st = (st, Some LookupError)"
proof -
  have "snd (lookup_segbits sb (base_name_of (sf_feature f)) (sf_start f)) = None"
    using assms(2) by (simp add: lookup_segbits_None_iff)
  then obtain key where "lookup_segbits sb (base_name_of (sf_feature f)) (sf_start f) = (key, None)"
    by (cases "lookup_segbits sb (base_name_of (sf_feature f)) (sf_start f)") simp
  then show ?thesis
    using assms(1) by (simp add: process_one_feature_def)
qed

lemma process_features_stops_at_unknown:
  assumes "process_features sb offset applied st = (st1, None)"
    and "sf_value f = 1"
    and "\<forall>k \<in> set (candidate_keys (base_name_of (sf_feature f)) (sf_start f)). map_of sb k = None"
  shows "process_features sb offset (applied @ f # rest) st = (st1, Some LookupError)"
  using assms(1) process_one_feature_unknown [OF assms(2,3), of offset st1]
  by (simp add: process_features_append)

lemma assemble_loop_LookupError:
  assumes "process_fasm_line db canon line st = (st1, Some LookupError)"
  shows "assemble_loop db canon unknown_features (line # fasm_lines) st =
           assemble_loop db canon (unknown_features @ [line]) fasm_lines st1"
  using assms by simp

lemma assemble_loop_ok:
  assumes "process_fasm_line db canon line st = (st1, None)"
  shows "assemble_loop db canon unknown_features (line # fasm_lines) st =
           assemble_loop db canon unknown_features fasm_lines st1"
  using assms by simp

subsection \<open>A lookup failure in the middle of a statement\<close>

text \<open>
  C10. Let the canonical expansion of a statement be \<open>applied @ f # rest\<close>, where the
  single-bit features \<open>applied\<close> are processed without error and lead from the state
  \<open>st\<close> to \<open>st1\<close>, and where the table resolves no key of \<open>f\<close>. Then
  \<open>process_fasm_line\<close> raises LookupError and leaves the assembler in \<open>st1\<close>: the bits
  written and the keys recorded for \<open>applied\<close> stay. \<open>assemble_bitstream\<close> collects the
  line and goes on from \<open>st1\<close>.
\<close>

theorem C10_lookup_failure_not_atomic:
  assumes "set_feature line = Some sf" and "sf_value sf \<noteq> 0"
    and "resolve_feature db (sf_feature sf) = Inr (sb, offset)"
    and "canon sf = applied @ f # rest"
    and "process_features sb offset applied st = (st1, None)"
    and "sf_value f = 1"
    and "\<forall>k \<in> set (candidate_keys (base_name_of (sf_feature f)) (sf_start f)). map_of sb k = None"
  shows "process_fasm_line db canon line st = (st1, Some LookupError)
         \<and> assemble_loop db canon unknown_features (line # fasm_lines) st =
             assemble_loop db canon (unknown_features @ [line]) fasm_lines st1"
proof -
  have "process_features sb offset (canon sf) st = (st1, Some LookupError)"
    unfolding assms(4) by (rule process_features_stops_at_unknown [OF assms(5,6,7)])
  then have p: "process_fasm_line db canon line st = (st1, Some LookupError)"
    using assms(1,2,3) by (simp add: process_fasm_line_def)
  from p assemble_loop_LookupError [OF p] show ?thesis by blast
qed

theorem C10_lookup_failure_not_atomic_witness:
  "process_fasm_line db_one canon_range line_A (init_assembler db_one) = (st_A, Some LookupError)
   \<and> assemble_loop db_one canon_range [] [line_A, fasm_line ''fpga_top.grid_T_0__0_.F0'']
         (init_assembler db_one) =
       assemble_loop db_one canon_range [line_A] [fasm_line ''fpga_top.grid_T_0__0_.F0''] st_A
   \<and> bitstream st_A = [0, 0, 1, 0]
   \<and> keys_at st_A 2 = {''A[0]''}"
proof -
  let ?sf = "\<lparr>sf_feature = ''fpga_top.grid_T_0__0_.A'',
             sf_start = Some 0, sf_end = Some 1, sf_value = 3\<rparr>"
  have h1: "set_feature line_A = Some ?sf"
    by (simp add: line_A_def)
  have h2: "sf_value ?sf \<noteq> 0"
    by simp
  have h3: "resolve_feature db_one (sf_feature ?sf) = Inr (table_T, 0)"
    by code_simp
  have h4: "canon_range ?sf = [feature_A 0] @ feature_A 1 # []"
    by code_simp
  have "snd (process_features table_T 0 [feature_A 0] (init_assembler db_one)) = None"
    by code_simp
  then have h5: "process_features table_T 0 [feature_A 0] (init_assembler db_one) = (st_A, None)"
    by (simp add: st_A_def prod_eq_iff)
  have h6: "sf_value (feature_A 1) = 1"
    by (simp add: feature_A_def)
  have h7: "\<forall>k \<in> set (candidate_keys (base_name_of (sf_feature (feature_A 1)))
                     (sf_start (feature_A 1))). map_of table_T k = None"
    by code_simp
  have b: "bitstream st_A = [0, 0, 1, 0]"
    by code_simp
  have k: "keys_at st_A 2 = {''A[0]''}"
    by code_simp
  from C10_lookup_failure_not_atomic [where canon = canon_range and unknown_features = "[]"
         and fasm_lines = "[fasm_line ''fpga_top.grid_T_0__0_.F0'']", OF h1 h2 h3 h4 h5 h6 h7] b k
  show ?thesis by simp
qed

subsection \<open>Paths and base names\<close>

lemma py_split_not_Nil: "py_split c s \<noteq> []"
  by (induction s) (auto split: list.splits)

lemma py_split_segment:
  "c \<notin> set a \<Longrightarrow> py_split c (a @ c # b) = a # py_split c b"
  by (induction a) (auto split: list.splits)

lemma py_join_Cons:
  "ps \<noteq> [] \<Longrightarrow> py_join sep (p # ps) = p @ sep @ py_join sep ps"
  by (cases ps) simp_all



subsection \<open>Statements that do not resolve\<close>

lemma resolve_feature_prefix:
  "lacks_fpga_top path \<or> too_few_segments path \<Longrightarrow> resolve_feature db path = Inl LookupError"
  using py_split_not_Nil [of "CHR ''.''" path]
  by (auto simp: resolve_feature_def lacks_fpga_top_def too_few_segments_def Let_def hd_conv_nth)

lemma resolve_feature_location:
  "lacks_location path \<Longrightarrow> resolve_feature db path = Inl LookupError"
  by (simp add: resolve_feature_def lacks_location_def Let_def)

text \<open>
  Once the second segment matches and both groups of digits are short enough, the path
  resolves as its component does at its location, unless the first segment or the number
  of segments is wrong.
\<close>

lemma resolve_feature_matched:
  assumes "LOC_RE_fullmatch (py_split CHR ''.'' path ! 1) = Some (name, x, y)"
    and "int (length x) \<le> int_max_str_digits" and "int (length y) \<le> int_max_str_digits"
  shows "resolve_feature db path = Inl LookupError
         \<or> resolve_feature db path = resolve_at db name (int_of_digits x, int_of_digits y)"
  using assms by (simp add: resolve_feature_def py_int_def Let_def)

text \<open>\<open>replace\<close> leaves a string without an occurrence of \<open>old\<close> as it is.\<close>

lemma py_replace_absent:
  assumes "old \<noteq> []" and "\<not> occurs_in old s"
  shows "py_replace old new s = s"
  using assms(2)
proof (induction s)
  case Nil
  show ?case
    using assms(1) by (simp add: py_replace.simps)
next
  case (Cons c s)
  from Cons.prems have n: "\<not> startswith (c # s) old" and r: "\<not> occurs_in old s"
    by simp_all
  have "py_replace old new (c # s) = c # py_replace old new s"
    using assms(1) n by (subst py_replace.simps) simp
  with Cons.IH [OF r] show ?case
    by simp
qed

lemma tile_segbits_name_leading:
  assumes "startswith name ''grid_''" and "\<not> occurs_in ''grid_'' (block_type name)"
  shows "tile_segbits_name name = block_type name"
proof -
  have ne: "name \<noteq> []"
    using assms(1) by (auto simp: startswith_def)
  have "py_replace ''grid_'' [] name = py_replace ''grid_'' [] (drop (length ''grid_'') name)"
    using assms(1) ne by (subst py_replace.simps) simp
  also have "\<dots> = drop (length ''grid_'') name"
    using assms(2) by (intro py_replace_absent) (simp_all add: block_type_def)
  finally show ?thesis
    by (simp add: tile_segbits_name_def block_type_def)
qed

lemma resolve_at_unknown:
  assumes "path_component path = Some (name, l)"
    and "unknown_location db path \<or> unknown_component db path
         \<or> (unknown_table db path \<and> grid_only_leading path)"
  shows "resolve_at db name l = Inl LookupError"
proof (cases "startswith name ''grid_''")
  case True
  show ?thesis
  proof (cases "map_of (tiles db) l")
    case None
    with True show ?thesis
      by (simp add: resolve_at_def Let_def)
  next
    case (Some t)
    with assms True have u: "map_of (segbits db) (block_type name) = None"
      and g: "\<not> occurs_in ''grid_'' (block_type name)"
      by (auto simp: unknown_location_def unknown_component_def unknown_table_def
            grid_only_leading_def)
    have "tile_segbits_name name = block_type name"
      by (rule tile_segbits_name_leading [OF True g])
    with True Some u show ?thesis
      by (simp add: resolve_at_def Let_def)
  qed
next
  case False
  with assms show ?thesis
    by (auto simp: resolve_at_def Let_def unknown_location_def unknown_component_def
          unknown_table_def resource_type_def py_split1_head_def split: option.splits)
qed

lemma resolve_feature_unknown:
  assumes "coordinates_fit path"
    and "unknown_location db path \<or> unknown_component db path
         \<or> (unknown_table db path \<and> grid_only_leading path)"
  shows "resolve_feature db path = Inl LookupError"
proof -
  from assms(2) obtain name l where pc: "path_component path = Some (name, l)"
    by (cases "path_component path")
       (auto simp: unknown_location_def unknown_component_def unknown_table_def)
  then obtain x y where m: "LOC_RE_fullmatch (py_split CHR ''.'' path ! 1) = Some (name, x, y)"
    and l: "l = (int_of_digits x, int_of_digits y)"
    by (auto simp: path_component_def split: option.splits)
  from assms(1) m have f: "int (length x) \<le> int_max_str_digits"
    "int (length y) \<le> int_max_str_digits"
    by (simp_all add: coordinates_fit_def)
  from resolve_feature_matched [OF m f, of db] resolve_at_unknown [OF pc assms(2)] l
  show ?thesis
    by auto
qed

text \<open>A path that resolves to an error other than LookupError ends the assembly.\<close>

lemma assemble_loop_abort:
  assumes "process_fasm_line db canon line st = (st1, Some e)" and "e \<noteq> LookupError"
  shows "assemble_loop db canon unknown_features (line # fasm_lines) st = (st1, Inl e)"
  using assms by simp

text \<open>The path with the long coordinate: its segments, its match and its resolution.\<close>

lemma path_long_split:
  "py_split CHR ''.'' path_long
     = [''fpga_top'', ''grid_T'' @ ''_'' @ replicate 4301 CHR ''1'' @ ''__'' @ ''5'' @ ''_'', ''F0'']"
proof -
  define seg where "seg = ''grid_T'' @ ''_'' @ replicate 4301 CHR ''1'' @ ''__'' @ ''5'' @ ''_''"
  have p: "path_long = ''fpga_top'' @ CHR ''.'' # (seg @ CHR ''.'' # ''F0'')"
    by (simp add: path_long_def seg_def)
  have d: "CHR ''.'' \<notin> set ''fpga_top''" "CHR ''.'' \<notin> set seg"
    by (auto simp: seg_def)
  have "py_split CHR ''.'' path_long = ''fpga_top'' # seg # py_split CHR ''.'' ''F0''"
    unfolding p by (simp only: py_split_segment [OF d(1)] py_split_segment [OF d(2)])
  then show ?thesis
    by (simp add: seg_def)
qed

lemma path_long_match:
  "LOC_RE_fullmatch (py_split CHR ''.'' path_long ! 1)
     = Some (''grid_T'', replicate 4301 CHR ''1'', ''5'')"
proof -
  have "LOC_RE_fullmatch (''grid_T'' @ ''_'' @ replicate 4301 CHR ''1'' @ ''__'' @ ''5'' @ ''_'')
          = Some (''grid_T'', replicate 4301 CHR ''1'', ''5'')"
    by (rule LOC_RE_fullmatch_intro) (simp_all add: is_digit_def)
  then show ?thesis
    by (simp only: path_long_split nth_Cons_Suc nth_Cons_0 One_nat_def)
qed

lemma path_long_ValueError: "resolve_feature db path_long = Inl ValueError"
  using path_long_match
  by (simp add: resolve_feature_def path_long_split py_int_def int_max_str_digits_def Let_def)

lemma path_long_unknown: "unknown_location db_one path_long"
proof -
  have "int_of_digits ''5'' = 5"
    by code_simp
  then show ?thesis
    using path_long_match
    by (simp add: unknown_location_def path_component_def startswith_def db_one_def)
qed

text \<open>
  C5 as stated fails in three ways. A statement of value 0 whose path lacks \<open>fpga_top\<close>
  is not collected: \<open>process_fasm_line\<close> returns at \<open>set_feature.value == 0\<close> before it
  looks at the path. The path \<open>fpga_top.grid_io_grid_top_0__0_.EN\<close> names the block type
  \<open>io_grid_top\<close>, which has no table in \<open>db_io\<close>, and yet it is assembled and not
  collected: \<open>replace\<close> removes both occurrences of \<open>grid_\<close> and the table \<open>io_top\<close> is
  used. A path whose coordinate has 4301 digits names a location without a tile and is
  not collected either: \<open>int\<close> raises ValueError, which ends the assembly before the next
  statement is processed.
\<close>

theorem C5_not_collected:
  "lacks_fpga_top ''top.grid_T_0__0_.F0''
   \<and> snd (process_fasm_line db_one canon_single line_zero (init_assembler db_one)) = None
   \<and> snd (assemble_bitstream db_one canon_single [line_zero] (init_assembler db_one)) = Inr []
   \<and> unknown_table db_io ''fpga_top.grid_io_grid_top_0__0_.EN''
   \<and> snd (assemble_bitstream db_io canon_single
            [fasm_line ''fpga_top.grid_io_grid_top_0__0_.EN''] (init_assembler db_io)) = Inr []
   \<and> bitstream (fst (assemble_bitstream db_io canon_single
            [fasm_line ''fpga_top.grid_io_grid_top_0__0_.EN''] (init_assembler db_io))) = [1]
   \<and> unknown_location db_one path_long
   \<and> assemble_bitstream db_one canon_single
        [fasm_line path_long, fasm_line ''fpga_top.grid_T_0__0_.F0''] (init_assembler db_one)
       = (init_assembler db_one, Inl ValueError)"
proof -
  have z: "lacks_fpga_top ''top.grid_T_0__0_.F0''
     \<and> snd (process_fasm_line db_one canon_single line_zero (init_assembler db_one)) = None
     \<and> snd (assemble_bitstream db_one canon_single [line_zero] (init_assembler db_one)) = Inr []"
    by code_simp
  have g: "unknown_table db_io ''fpga_top.grid_io_grid_top_0__0_.EN''
     \<and> snd (assemble_bitstream db_io canon_single
            [fasm_line ''fpga_top.grid_io_grid_top_0__0_.EN''] (init_assembler db_io)) = Inr []
     \<and> bitstream (fst (assemble_bitstream db_io canon_single
            [fasm_line ''fpga_top.grid_io_grid_top_0__0_.EN''] (init_assembler db_io))) = [1]"
    by code_simp
  have "process_fasm_line db_one canon_single (fasm_line path_long) (init_assembler db_one)
          = (init_assembler db_one, Some ValueError)"
    by (simp add: process_fasm_line_def fasm_line_def stmt_def path_long_ValueError)
  then have l: "assemble_bitstream db_one canon_single
        [fasm_line path_long, fasm_line ''fpga_top.grid_T_0__0_.F0''] (init_assembler db_one)
       = (init_assembler db_one, Inl ValueError)"
    unfolding assemble_bitstream_def by (rule assemble_loop_abort) simp
  from z g path_long_unknown l show ?thesis
    by blast
qed

text \<open>
  C5, amended. A statement of nonzero value is collected as unresolved, and the loop goes on
  with the remaining statements, in each of these cases: its path lacks the first segment
  \<open>fpga_top\<close>, has fewer than three segments, or lacks the location suffix on its second
  segment; the groups of digits of its location have at most 4300 digits each and it names
  an unknown location, an unknown routing resource type, or an unknown table, where the
  identifier of a tile holds \<open>grid_\<close> at its start only; its path resolves and its
  canonical expansion \<open>applied @ f # rest\<close> reaches, without an earlier error, a
  single-bit feature \<open>f\<close> of value 1 that the table does not have.
\<close>

theorem C5_unresolved_collected:
  assumes "set_feature line = Some sf" and "sf_value sf \<noteq> 0"
    and "lacks_fpga_top (sf_feature sf) \<or> too_few_segments (sf_feature sf)
         \<or> lacks_location (sf_feature sf)
         \<or> (coordinates_fit (sf_feature sf)
            \<and> (unknown_location db (sf_feature sf) \<or> unknown_component db (sf_feature sf)
                \<or> (unknown_table db (sf_feature sf) \<and> grid_only_leading (sf_feature sf))))
         \<or> (resolve_feature db (sf_feature sf) = Inr (sb, offset)
            \<and> canon sf = applied @ f # rest
            \<and> process_features sb offset applied st = (st_a, None)
            \<and> sf_value f = 1
            \<and> (\<forall>k \<in> set (candidate_keys (base_name_of (sf_feature f)) (sf_start f)).
                  map_of sb k = None))"
  shows "\<exists>st'. process_fasm_line db canon line st = (st', Some LookupError)
           \<and> assemble_loop db canon unknown_features (line # fasm_lines) st =
               assemble_loop db canon (unknown_features @ [line]) fasm_lines st'"
proof -
  have "\<exists>st'. process_fasm_line db canon line st = (st', Some LookupError)"
  proof (cases "resolve_feature db (sf_feature sf) = Inl LookupError")
    case True
    with assms(1,2) show ?thesis by (simp add: process_fasm_line_def)
  next
    case False
    with assms(3) resolve_feature_prefix [of "sf_feature sf" db]
      resolve_feature_location [of "sf_feature sf" db]
      resolve_feature_unknown [of "sf_feature sf" db]
    have r: "resolve_feature db (sf_feature sf) = Inr (sb, offset)"
      and c: "canon sf = applied @ f # rest"
      and a: "process_features sb offset applied st = (st_a, None)"
      and v: "sf_value f = 1"
      and u: "\<forall>k \<in> set (candidate_keys (base_name_of (sf_feature f)) (sf_start f)).
                map_of sb k = None"
      by blast+
    have "process_features sb offset (canon sf) st = (st_a, Some LookupError)"
      unfolding c by (rule process_features_stops_at_unknown [OF a v u])
    with assms(1,2) r show ?thesis by (simp add: process_fasm_line_def)
  qed
  then obtain st' where p: "process_fasm_line db canon line st = (st', Some LookupError)"
    by blast
  from p assemble_loop_LookupError [OF p] show ?thesis by blast
qed

theorem C5_unresolved_collected_witness:
  "snd (process_fasm_line db_one canon_single (fasm_line ''top.grid_T_0__0_.F0'')
          (init_assembler db_one)) = Some LookupError
   \<and> snd (process_fasm_line db_one canon_single (fasm_line ''fpga_top.grid_T_7__0_.F0'')
          (init_assembler db_one)) = Some LookupError
   \<and> snd (process_fasm_line db_one canon_single (fasm_line ''fpga_top.grid_U_0__0_.F0'')
          (init_assembler db_one)) = Some LookupError
   \<and> snd (process_fasm_line db_one canon_single (fasm_line ''fpga_top.grid_T_0__0_.F7'')
          (init_assembler db_one)) = Some LookupError
   \<and> snd (assemble_bitstream db_one canon_single
          [fasm_line ''top.grid_T_0__0_.F0'', fasm_line ''fpga_top.grid_T_0__0_.F7'',
           fasm_line ''fpga_top.grid_T_0__0_.F1''] (init_assembler db_one))
       = Inr [fasm_line ''top.grid_T_0__0_.F0'', fasm_line ''fpga_top.grid_T_0__0_.F7'']
   \<and> bitstream (fst (assemble_bitstream db_one canon_single
          [fasm_line ''top.grid_T_0__0_.F0'', fasm_line ''fpga_top.grid_T_0__0_.F7'',
           fasm_line ''fpga_top.grid_T_0__0_.F1''] (init_assembler db_one))) = [0, 1, 0, 0]"
proof -
  have s: "\<And>p. set_feature (fasm_line p) = Some (stmt p)"
    by (simp add: fasm_line_def)
  have v: "\<And>p. sf_value (stmt p) \<noteq> 0"
    by (simp add: stmt_def)
  have h1: "lacks_fpga_top (sf_feature (stmt ''top.grid_T_0__0_.F0''))"
    by code_simp
  have h2: "resolve_feature db_one (sf_feature (stmt ''fpga_top.grid_T_0__0_.F7''))
              = Inr (table_T, 0)
            \<and> canon_single (stmt ''fpga_top.grid_T_0__0_.F7'')
              = [] @ stmt ''fpga_top.grid_T_0__0_.F7'' # []
            \<and> process_features table_T 0 [] (init_assembler db_one)
              = (init_assembler db_one, None)
            \<and> sf_value (stmt ''fpga_top.grid_T_0__0_.F7'') = 1
            \<and> (\<forall>k \<in> set (candidate_keys
                        (base_name_of (sf_feature (stmt ''fpga_top.grid_T_0__0_.F7'')))
                        (sf_start (stmt ''fpga_top.grid_T_0__0_.F7''))).
                  map_of table_T k = None)"
  proof (intro conjI)
    show "resolve_feature db_one (sf_feature (stmt ''fpga_top.grid_T_0__0_.F7''))
              = Inr (table_T, 0)"
      by code_simp
    show "canon_single (stmt ''fpga_top.grid_T_0__0_.F7'')
              = [] @ stmt ''fpga_top.grid_T_0__0_.F7'' # []"
      by (simp add: canon_single_def)
    show "process_features table_T 0 [] (init_assembler db_one) = (init_assembler db_one, None)"
      by simp
    show "sf_value (stmt ''fpga_top.grid_T_0__0_.F7'') = 1"
      by (simp add: stmt_def)
    show "\<forall>k \<in> set (candidate_keys
                        (base_name_of (sf_feature (stmt ''fpga_top.grid_T_0__0_.F7'')))
                        (sf_start (stmt ''fpga_top.grid_T_0__0_.F7''))).
                  map_of table_T k = None"
      by code_simp
  qed
  have h3: "coordinates_fit (sf_feature (stmt ''fpga_top.grid_T_7__0_.F0''))
            \<and> unknown_location db_one (sf_feature (stmt ''fpga_top.grid_T_7__0_.F0''))"
    by code_simp
  have h4: "coordinates_fit (sf_feature (stmt ''fpga_top.grid_U_0__0_.F0''))
            \<and> unknown_table db_one (sf_feature (stmt ''fpga_top.grid_U_0__0_.F0''))
            \<and> grid_only_leading (sf_feature (stmt ''fpga_top.grid_U_0__0_.F0''))"
    by code_simp
  have a: "snd (process_fasm_line db_one canon_single (fasm_line ''top.grid_T_0__0_.F0'')
          (init_assembler db_one)) = Some LookupError"
    using C5_unresolved_collected [where canon = canon_single and db = db_one
            and st = "init_assembler db_one", OF s v] h1
    by fastforce
  have b: "snd (process_fasm_line db_one canon_single (fasm_line ''fpga_top.grid_T_7__0_.F0'')
          (init_assembler db_one)) = Some LookupError"
    using C5_unresolved_collected [where canon = canon_single and db = db_one
            and st = "init_assembler db_one", OF s v] h3
    by fastforce
  have c: "snd (process_fasm_line db_one canon_single (fasm_line ''fpga_top.grid_U_0__0_.F0'')
          (init_assembler db_one)) = Some LookupError"
    using C5_unresolved_collected [where canon = canon_single and db = db_one
            and st = "init_assembler db_one", OF s v] h4
    by fastforce
  have d: "snd (process_fasm_line db_one canon_single (fasm_line ''fpga_top.grid_T_0__0_.F7'')
          (init_assembler db_one)) = Some LookupError"
    using C5_unresolved_collected [where canon = canon_single and db = db_one
            and st = "init_assembler db_one" and sb = table_T and offset = 0
            and applied = "[]" and rest = "[]" and st_a = "init_assembler db_one", OF s v] h2
    by fastforce
  have e: "snd (assemble_bitstream db_one canon_single
          [fasm_line ''top.grid_T_0__0_.F0'', fasm_line ''fpga_top.grid_T_0__0_.F7'',
           fasm_line ''fpga_top.grid_T_0__0_.F1''] (init_assembler db_one))
       = Inr [fasm_line ''top.grid_T_0__0_.F0'', fasm_line ''fpga_top.grid_T_0__0_.F7'']"
    by code_simp
  have f: "bitstream (fst (assemble_bitstream db_one canon_single
          [fasm_line ''top.grid_T_0__0_.F0'', fasm_line ''fpga_top.grid_T_0__0_.F7'',
           fasm_line ''fpga_top.grid_T_0__0_.F1''] (init_assembler db_one))) = [0, 1, 0, 0]"
    by code_simp
  from a b c d e f show ?thesis by blast
qed

subsection \<open>Single-bit statements\<close>

lemma process_fasm_line_single:
  assumes "set_feature line = Some sf" and "sf_value sf = 1" and "canon sf = [sf]"
    and "resolve_feature db (sf_feature sf) = Inr (sb, offset)"
    and "lookup_segbits sb (base_name_of (sf_feature sf)) (sf_start sf) = (key, Some bits)"
  shows "process_fasm_line db canon line st = apply_bits key offset bits st"
proof -
  obtain st' r where a: "apply_bits key offset bits st = (st', r)"
    by (cases "apply_bits key offset bits st")
  have "process_one_feature sb offset sf st = (st', r)"
    using assms(2,5) a by (simp add: process_one_feature_def)
  then have "process_features sb offset [sf] st = (st', r)"
    by (cases r) simp_all
  with assms(1,2,3,4) a show ?thesis
    by (simp add: process_fasm_line_def)
qed

lemma distinct_idx_agree:
  assumes "distinct (map idx bits)"
  shows "\<forall>b \<in> set bits. \<forall>b' \<in> set bits. idx b = idx b' \<longrightarrow> val b = val b'"
proof (intro ballI impI)
  fix b b'
  assume "b \<in> set bits" "b' \<in> set bits" "idx b = idx b'"
  with assms have "b = b'"
    by (meson distinct_map inj_onD)
  then show "val b = val b'" by simp
qed

lemma init_assembler_simps:
  "length (bitstream (init_assembler db)) = bitstream_size db"
  "keys_at (init_assembler db) a = {}"
  "features_by_bits (init_assembler db) a = None"
  by (simp_all add: init_assembler_def keys_at_def)

subsection \<open>Two feature keys at one address\<close>

text \<open>
  C4. Two single-bit statements of value 1 resolve to patterns with different keys
  \<open>key1\<close> and \<open>key2\<close>; the indices are unique within each pattern and every address is
  inside the bit array (the data model of the patterns). Bit \<open>b1\<close> of the first and bit
  \<open>b2\<close> of the second have the same address \<open>a\<close> and different values. Assembling the
  first and then the second from a fresh assembler raises no error, collects nothing, and
  the bit at \<open>a\<close> ends with the value of \<open>b2\<close>, the later one.
\<close>

theorem C4_cross_key_overwrite:
  assumes "set_feature line1 = Some sf1" and "sf_value sf1 = 1" and "canon sf1 = [sf1]"
    and "set_feature line2 = Some sf2" and "sf_value sf2 = 1" and "canon sf2 = [sf2]"
    and "resolve_feature db (sf_feature sf1) = Inr (sb1, offset1)"
    and "resolve_feature db (sf_feature sf2) = Inr (sb2, offset2)"
    and "lookup_segbits sb1 (base_name_of (sf_feature sf1)) (sf_start sf1) = (key1, Some bits1)"
    and "lookup_segbits sb2 (base_name_of (sf_feature sf2)) (sf_start sf2) = (key2, Some bits2)"
    and "key1 \<noteq> key2"
    and "distinct (map idx bits1)" and "distinct (map idx bits2)"
    and "\<forall>b \<in> set bits1. 0 \<le> idx b + offset1 \<and> idx b + offset1 < int (bitstream_size db)"
    and "\<forall>b \<in> set bits2. 0 \<le> idx b + offset2 \<and> idx b + offset2 < int (bitstream_size db)"
    and "b1 \<in> set bits1" and "b2 \<in> set bits2"
    and "idx b1 + offset1 = a" and "idx b2 + offset2 = a" and "val b1 \<noteq> val b2"
  shows "\<exists>st. assemble_bitstream db canon [line1, line2] (init_assembler db) = (st, Inr [])
           \<and> bitstream st ! nat a = int_of_bool (val b2)"
proof -
  let ?st0 = "init_assembler db"
  have r1: "\<forall>b \<in> set bits1. 0 \<le> idx b + offset1
              \<and> idx b + offset1 < int (length (bitstream ?st0))"
    using assms(14) by (simp add: init_assembler_simps)
  have c1: "\<forall>b \<in> set bits1. key1 \<in> keys_at ?st0 (idx b + offset1)
              \<longrightarrow> bitstream ?st0 ! nat (idx b + offset1) = int_of_bool (val b)"
    by (simp add: init_assembler_simps)
  from apply_bits_ok [OF r1 c1 distinct_idx_agree [OF assms(12)]] obtain st1 where
    s1: "apply_bits key1 offset1 bits1 ?st0 = (st1, None)"
    and len1: "length (bitstream st1) = length (bitstream ?st0)"
    and f1: "\<forall>a. features_by_bits st1 a =
               (if a \<in> addresses offset1 bits1 then Some (insert key1 (keys_at ?st0 a))
                else features_by_bits ?st0 a)"
    by blast
  have k1: "\<And>a. keys_at st1 a \<subseteq> {key1}"
    using f1 by (simp add: keys_at_def init_assembler_simps)
  have r2: "\<forall>b \<in> set bits2. 0 \<le> idx b + offset2
              \<and> idx b + offset2 < int (length (bitstream st1))"
    using assms(15) len1 by (simp add: init_assembler_simps)
  have c2: "\<forall>b \<in> set bits2. key2 \<in> keys_at st1 (idx b + offset2)
              \<longrightarrow> bitstream st1 ! nat (idx b + offset2) = int_of_bool (val b)"
    using k1 assms(11) by blast
  from apply_bits_ok [OF r2 c2 distinct_idx_agree [OF assms(13)]] obtain st2 where
    s2: "apply_bits key2 offset2 bits2 st1 = (st2, None)"
    and v2: "\<forall>b \<in> set bits2. bitstream st2 ! nat (idx b + offset2) = int_of_bool (val b)"
    by blast
  have p1: "process_fasm_line db canon line1 ?st0 = (st1, None)"
    using process_fasm_line_single [where canon = canon, OF assms(1,2,3,7,9)] s1 by simp
  have p2: "process_fasm_line db canon line2 st1 = (st2, None)"
    using process_fasm_line_single [where canon = canon, OF assms(4,5,6,8,10)] s2 by simp
  have "assemble_bitstream db canon [line1, line2] ?st0 = (st2, Inr [])"
    using p1 p2 by (simp add: assemble_bitstream_def)
  moreover have "bitstream st2 ! nat a = int_of_bool (val b2)"
    using v2 assms(17,19) by blast
  ultimately show ?thesis by blast
qed

theorem C4_cross_key_overwrite_witness:
  "snd (assemble_bitstream db_cross canon_single
          [fasm_line ''fpga_top.grid_T_0__0_.SET'', fasm_line ''fpga_top.grid_T_0__0_.CLR'']
          (init_assembler db_cross)) = Inr []
   \<and> bitstream (fst (assemble_bitstream db_cross canon_single
          [fasm_line ''fpga_top.grid_T_0__0_.SET'', fasm_line ''fpga_top.grid_T_0__0_.CLR'']
          (init_assembler db_cross))) ! 0 = 0
   \<and> bitstream (fst (assemble_bitstream db_cross canon_single
          [fasm_line ''fpga_top.grid_T_0__0_.CLR'', fasm_line ''fpga_top.grid_T_0__0_.SET'']
          (init_assembler db_cross))) ! 0 = 1"
proof -
  have s: "\<And>p. set_feature (fasm_line p) = Some (stmt p)"
    by (simp add: fasm_line_def)
  have v: "\<And>p. sf_value (stmt p) = 1"
    by (simp add: stmt_def)
  have c: "\<And>p. canon_single (stmt p) = [stmt p]"
    by (simp add: canon_single_def)
  have r1: "resolve_feature db_cross (sf_feature (stmt ''fpga_top.grid_T_0__0_.SET''))
              = Inr (table_cross, 0)"
    by code_simp
  have r2: "resolve_feature db_cross (sf_feature (stmt ''fpga_top.grid_T_0__0_.CLR''))
              = Inr (table_cross, 0)"
    by code_simp
  have l1: "lookup_segbits table_cross (base_name_of (sf_feature (stmt ''fpga_top.grid_T_0__0_.SET'')))
              (sf_start (stmt ''fpga_top.grid_T_0__0_.SET'')) = (''SET'', Some [bit1 0])"
    by code_simp
  have l2: "lookup_segbits table_cross (base_name_of (sf_feature (stmt ''fpga_top.grid_T_0__0_.CLR'')))
              (sf_start (stmt ''fpga_top.grid_T_0__0_.CLR'')) = (''CLR'', Some [bit0 0])"
    by code_simp
  have ne: "''SET'' \<noteq> ''CLR''" "''CLR'' \<noteq> ''SET''"
    by simp_all
  have d: "distinct (map idx [bit1 0])" "distinct (map idx [bit0 0])"
    by simp_all
  have g1: "\<forall>b \<in> set [bit1 0]. 0 \<le> idx b + 0 \<and> idx b + 0 < int (bitstream_size db_cross)"
    by (simp add: bit1_def db_cross_def)
  have g2: "\<forall>b \<in> set [bit0 0]. 0 \<le> idx b + 0 \<and> idx b + 0 < int (bitstream_size db_cross)"
    by (simp add: bit0_def db_cross_def)
  have m: "bit1 0 \<in> set [bit1 0]" "bit0 0 \<in> set [bit0 0]"
    by simp_all
  have i: "idx (bit1 0) + 0 = 0" "idx (bit0 0) + 0 = 0"
    by (simp_all add: bit1_def bit0_def)
  have w: "val (bit1 0) \<noteq> val (bit0 0)" "val (bit0 0) \<noteq> val (bit1 0)"
    by (simp_all add: bit1_def bit0_def)
  have iv: "int_of_bool (val (bit0 0)) = 0" "int_of_bool (val (bit1 0)) = 1"
    by (simp_all add: bit1_def bit0_def int_of_bool_def)
  from C4_cross_key_overwrite [where canon = canon_single,
         OF s v c s v c r1 r2 l1 l2 ne(1) d(1) d(2) g1 g2 m(1) m(2) i(1) i(2) w(1)]
  have a: "snd (assemble_bitstream db_cross canon_single
          [fasm_line ''fpga_top.grid_T_0__0_.SET'', fasm_line ''fpga_top.grid_T_0__0_.CLR'']
          (init_assembler db_cross)) = Inr []
   \<and> bitstream (fst (assemble_bitstream db_cross canon_single
          [fasm_line ''fpga_top.grid_T_0__0_.SET'', fasm_line ''fpga_top.grid_T_0__0_.CLR'']
          (init_assembler db_cross))) ! 0 = 0"
    using iv by auto
  from C4_cross_key_overwrite [where canon = canon_single,
         OF s v c s v c r2 r1 l2 l1 ne(2) d(2) d(1) g2 g1 m(2) m(1) i(2) i(1) w(2)]
  have b: "bitstream (fst (assemble_bitstream db_cross canon_single
          [fasm_line ''fpga_top.grid_T_0__0_.CLR'', fasm_line ''fpga_top.grid_T_0__0_.SET'']
          (init_assembler db_cross))) ! 0 = 1"
    using iv by auto
  from a b show ?thesis by blast
qed

subsection \<open>The key recorded in the provenance sets\<close>







subsection \<open>Slices\<close>

lemma py_get_slice_in_range:
  assumes "0 \<le> s" and "0 \<le> l" and "s + l \<le> int (length xs)"
  shows "py_get_slice xs s (s + l) = take (nat l) (drop (nat s) xs)"
proof -
  have a: "py_slice_index s (length xs) = nat s"
    using assms by (simp add: py_slice_index_def)
  have b: "py_slice_index (s + l) (length xs) = nat s + nat l"
    using assms by (simp add: py_slice_index_def nat_add_distrib)
  show ?thesis
    by (simp add: py_get_slice_def a b)
qed

lemma py_set_slice_in_range:
  assumes "0 \<le> d" and "0 \<le> l" and "d + l \<le> int (length xs)"
  shows "py_set_slice xs d (d + l) ys = take (nat d) xs @ ys @ drop (nat d + nat l) xs"
proof -
  have a: "py_slice_index d (length xs) = nat d"
    using assms by (simp add: py_slice_index_def)
  have b: "py_slice_index (d + l) (length xs) = nat d + nat l"
    using assms by (simp add: py_slice_index_def nat_add_distrib)
  show ?thesis
    by (simp add: py_set_slice_def a b Let_def)
qed

lemma write_at_length:
  assumes "d + length ys \<le> length xs"
  shows "length (take d xs @ ys @ drop (d + length ys) xs) = length xs"
  using assms by simp

lemma write_at_nth:
  assumes "d + length ys \<le> length xs" and "k < length xs"
  shows "(take d xs @ ys @ drop (d + length ys) xs) ! k =
           (if d \<le> k \<and> k < d + length ys then ys ! (k - d) else xs ! k)"
proof -
  have ld: "length (take d xs) = d"
    using assms(1) by simp
  consider "k < d" | "d \<le> k" "k < d + length ys" | "d + length ys \<le> k"
    by linarith
  then show ?thesis
  proof cases
    case 1
    with assms show ?thesis by (simp add: nth_append)
  next
    case 2
    then have "k - d < length ys" by linarith
    with 2 assms show ?thesis by (simp add: nth_append)
  next
    case 3
    then have n1: "\<not> k < d" and n2: "\<not> k - d < length ys"
      by linarith+
    have e: "d + length ys + (k - d - length ys) = k"
      using 3 by linarith
    have "(take d xs @ ys @ drop (d + length ys) xs) ! k
                 = drop (d + length ys) xs ! (k - d - length ys)"
      using n1 n2 assms by (simp add: nth_append)
    also have "\<dots> = xs ! (d + length ys + (k - d - length ys))"
      using assms by (intro nth_drop) simp
    finally show ?thesis using 3 e by simp
  qed
qed

subsection \<open>One region copied into its lane\<close>

lemma pad_step:
  assumes "region_fits M bs (length padded) (i, r)" and "0 \<le> M"
  shows "length (py_set_slice padded (i * M) (i * M + region_length r)
                   (py_get_slice bs (region_offset r) (region_offset r + region_length r)))
           = length padded"
    and "k < length padded \<Longrightarrow>
         py_set_slice padded (i * M) (i * M + region_length r)
           (py_get_slice bs (region_offset r) (region_offset r + region_length r)) ! k
           = (if in_lane_data M (i, r) k
              then bs ! nat (region_offset r + (int k - i * M))
              else padded ! k)"
proof -
  define ys where "ys = take (nat (region_length r)) (drop (nat (region_offset r)) bs)"
  define d where "d = nat (i * M)"
  have f: "0 \<le> i" "0 \<le> region_offset r" "0 \<le> region_length r" "region_length r \<le> M"
    "region_offset r + region_length r \<le> int (length bs)" "i * M + M \<le> int (length padded)"
    using assms(1) by (simp_all add: region_fits_def)
  have d0: "0 \<le> i * M"
    using f(1) assms(2) by simp
  have g: "py_get_slice bs (region_offset r) (region_offset r + region_length r) = ys"
    unfolding ys_def by (rule py_get_slice_in_range [OF f(2) f(3) f(5)])
  have ly: "length ys = nat (region_length r)"
    unfolding ys_def using f(2,3,5) by simp
  have ny: "\<And>j. j < nat (region_length r) \<Longrightarrow> ys ! j = bs ! (nat (region_offset r) + j)"
    unfolding ys_def using f(2,3,5) by simp
  have dl: "i * M + region_length r \<le> int (length padded)"
    using f(4,6) by linarith
  have "py_set_slice padded (i * M) (i * M + region_length r) ys
          = take (nat (i * M)) padded @ ys @ drop (nat (i * M) + nat (region_length r)) padded"
    by (rule py_set_slice_in_range [OF d0 f(3) dl])
  then have s: "py_set_slice padded (i * M) (i * M + region_length r) ys
             = take d padded @ ys @ drop (d + length ys) padded"
    by (simp only: ly d_def)
  have fit: "d + length ys \<le> length padded"
    unfolding ly d_def using d0 f(3) dl by linarith
  have lane: "\<And>k. in_lane_data M (i, r) k \<longleftrightarrow> d \<le> k \<and> k < d + length ys"
    unfolding ly d_def in_lane_data_def fst_conv snd_conv using d0 f(3) by linarith
  show "length (py_set_slice padded (i * M) (i * M + region_length r)
                   (py_get_slice bs (region_offset r) (region_offset r + region_length r)))
           = length padded"
    unfolding g s by (rule write_at_length [OF fit])
  show "py_set_slice padded (i * M) (i * M + region_length r)
           (py_get_slice bs (region_offset r) (region_offset r + region_length r)) ! k
           = (if in_lane_data M (i, r) k
              then bs ! nat (region_offset r + (int k - i * M))
              else padded ! k)" if k: "k < length padded"
  proof (cases "in_lane_data M (i, r) k")
    case True
    then have a: "d \<le> k" "k < d + length ys"
      unfolding lane by simp_all
    then have "k - d < nat (region_length r)"
      unfolding ly by linarith
    then have "ys ! (k - d) = bs ! (nat (region_offset r) + (k - d))"
      by (rule ny)
    moreover have "nat (region_offset r) + (k - d) = nat (region_offset r + (int k - i * M))"
      unfolding d_def using a(1) d0 f(2) unfolding d_def by linarith
    moreover have "(take d padded @ ys @ drop (d + length ys) padded) ! k = ys ! (k - d)"
      unfolding write_at_nth [OF fit k] using a by (simp only: simp_thms if_True)
    ultimately show ?thesis
      unfolding g s using True by simp
  next
    case False
    then have "\<not> (d \<le> k \<and> k < d + length ys)"
      unfolding lane .
    then have "(take d padded @ ys @ drop (d + length ys) padded) ! k = padded ! k"
      unfolding write_at_nth [OF fit k] by (simp only: if_False)
    then show ?thesis
      unfolding g s using False by simp
  qed
qed

lemma lanes_disjoint:
  assumes "fst p \<noteq> fst q" and "0 \<le> M"
    and "region_length (snd p) \<le> M" and "region_length (snd q) \<le> M"
    and "in_lane_data M p k"
  shows "\<not> in_lane_data M q k"
proof
  assume q: "in_lane_data M q k"
  have step: "\<And>i j :: int. i < j \<Longrightarrow> i * M + M \<le> j * M"
  proof -
    fix i j :: int
    assume "i < j"
    then have "i + 1 \<le> j" by simp
    then have "(i + 1) * M \<le> j * M"
      using assms(2) by (rule mult_right_mono)
    then show "i * M + M \<le> j * M"
      by (simp add: algebra_simps)
  qed
  from assms(1) consider "fst p < fst q" | "fst q < fst p" by linarith
  then show False
  proof cases
    case 1
    from step [OF 1] assms(3,5) q show False
      by (simp add: in_lane_data_def)
  next
    case 2
    from step [OF 2] assms(4,5) q show False
      by (simp add: in_lane_data_def)
  qed
qed

subsection \<open>All regions copied\<close>

lemma in_lane_data_bound:
  assumes "region_fits M bs n p" and "in_lane_data M p k"
  shows "k < n"
  using assms by (simp add: region_fits_def in_lane_data_def)

lemma pad_regions_props:
  assumes "\<forall>p \<in> set rs. region_fits M bs (length padded) p"
    and "0 \<le> M" and "distinct (map fst rs)"
  shows "length (pad_regions M bs rs padded) = length padded
         \<and> (\<forall>k < length padded. (\<forall>p \<in> set rs. \<not> in_lane_data M p k)
               \<longrightarrow> pad_regions M bs rs padded ! k = padded ! k)
         \<and> (\<forall>p \<in> set rs. \<forall>k. in_lane_data M p k
               \<longrightarrow> pad_regions M bs rs padded ! k
                     = bs ! nat (region_offset (snd p) + (int k - fst p * M)))"
  using assms
proof (induction rs arbitrary: padded)
  case Nil
  show ?case by simp
next
  case (Cons q rs)
  obtain i r where q: "q = (i, r)" by (cases q)
  define padded1 where
    "padded1 = py_set_slice padded (i * M) (i * M + region_length r)
                 (py_get_slice bs (region_offset r) (region_offset r + region_length r))"
  have fq: "region_fits M bs (length padded) (i, r)"
    using Cons.prems(1) q by simp
  have len1: "length padded1 = length padded"
    unfolding padded1_def by (rule pad_step(1) [OF fq Cons.prems(2)])
  have nth1: "\<And>k. k < length padded \<Longrightarrow>
                padded1 ! k = (if in_lane_data M (i, r) k
                               then bs ! nat (region_offset r + (int k - i * M))
                               else padded ! k)"
    unfolding padded1_def by (rule pad_step(2) [OF fq Cons.prems(2)])
  have step: "pad_regions M bs (q # rs) padded = pad_regions M bs rs padded1"
    by (simp add: q padded1_def Let_def)
  have f1: "\<forall>p \<in> set rs. region_fits M bs (length padded1) p"
    using Cons.prems(1) len1 by simp
  have d1: "distinct (map fst rs)"
    using Cons.prems(3) by simp
  have other: "\<And>p. p \<in> set rs \<Longrightarrow> fst p \<noteq> i"
    using Cons.prems(3) q by auto
  from Cons.IH [OF f1 Cons.prems(2) d1] have
    ihL: "length (pad_regions M bs rs padded1) = length padded1"
    and ihB: "\<And>k. k < length padded1 \<Longrightarrow> (\<forall>p \<in> set rs. \<not> in_lane_data M p k)
                \<Longrightarrow> pad_regions M bs rs padded1 ! k = padded1 ! k"
    and ihA: "\<And>p k. p \<in> set rs \<Longrightarrow> in_lane_data M p k
                \<Longrightarrow> pad_regions M bs rs padded1 ! k
                     = bs ! nat (region_offset (snd p) + (int k - fst p * M))"
    by blast+
  have lenq: "region_length r \<le> M"
    using fq by (simp add: region_fits_def)
  have cL: "length (pad_regions M bs (q # rs) padded) = length padded"
    unfolding step using ihL len1 by simp
  have cB: "\<forall>k < length padded. (\<forall>p \<in> set (q # rs). \<not> in_lane_data M p k)
               \<longrightarrow> pad_regions M bs (q # rs) padded ! k = padded ! k"
  proof (intro allI impI)
    fix k
    assume k: "k < length padded" and n: "\<forall>p \<in> set (q # rs). \<not> in_lane_data M p k"
    have "pad_regions M bs rs padded1 ! k = padded1 ! k"
      using ihB [of k] k len1 n by simp
    moreover have "padded1 ! k = padded ! k"
      using nth1 [OF k] n q by simp
    ultimately show "pad_regions M bs (q # rs) padded ! k = padded ! k"
      unfolding step by simp
  qed
  have cA: "\<forall>p \<in> set (q # rs). \<forall>k. in_lane_data M p k
               \<longrightarrow> pad_regions M bs (q # rs) padded ! k
                     = bs ! nat (region_offset (snd p) + (int k - fst p * M))"
  proof (intro ballI allI impI)
    fix p k
    assume p: "p \<in> set (q # rs)" and l: "in_lane_data M p k"
    show "pad_regions M bs (q # rs) padded ! k
            = bs ! nat (region_offset (snd p) + (int k - fst p * M))"
    proof (cases "p \<in> set rs")
      case True
      from ihA [OF True l] show ?thesis unfolding step .
    next
      case False
      with p have pq: "p = (i, r)" using q by simp
      have k: "k < length padded"
        using in_lane_data_bound [OF fq] l pq by simp
      have "\<forall>p' \<in> set rs. \<not> in_lane_data M p' k"
      proof
        fix p'
        assume m: "p' \<in> set rs"
        have "region_length (snd p') \<le> M"
          using Cons.prems(1) m by (simp add: region_fits_def)
        moreover have "fst p \<noteq> fst p'"
          using other [OF m] pq by simp
        moreover have "region_length (snd p) \<le> M"
          using lenq pq by simp
        ultimately show "\<not> in_lane_data M p' k"
          using lanes_disjoint [of p p' M k] Cons.prems(2) l by blast
      qed
      then have "pad_regions M bs rs padded1 ! k = padded1 ! k"
        using ihB [of k] k len1 by simp
      moreover have "padded1 ! k = bs ! nat (region_offset r + (int k - i * M))"
        using nth1 [OF k] l pq by simp
      ultimately show ?thesis
        unfolding step using pq by simp
    qed
  qed
  from cL cB cA show ?case by blast
qed

lemma py_max_Max:
  assumes "xs \<noteq> []"
  shows "py_max xs = Max (set xs)"
proof -
  obtain x ys where xs: "xs = x # ys"
    using assms by (cases xs) auto
  have "(\<lambda>a b. max b a) = (max :: int \<Rightarrow> int \<Rightarrow> int)"
    by (intro ext) (rule max.commute)
  then have "foldl max x ys = fold max ys x"
    by (simp add: foldl_conv_fold)
  moreover have "Max (set (x # ys)) = fold max ys x"
    by (rule Max.set_eq_fold)
  ultimately show ?thesis
    by (simp only: py_max_def xs list.sel)
qed

subsection \<open>The padding identity\<close>

lemma py_max_regions:
  assumes "regions db \<noteq> []"
  shows "py_max (map (\<lambda>(region_id, r). region_length r) (regions db)) = max_len db"
proof -
  have "(\<lambda>(region_id, r). region_length r) = (\<lambda>p :: int \<times> region. region_length (snd p))"
    by (simp add: case_prod_unfold)
  then show ?thesis
    using assms by (simp add: py_max_Max max_len_def)
qed

text \<open>
  C3. The region ids are the keys of a dict, so they are distinct, and they range over
  \<open>0..numRegions-1\<close>; every region's logical slice lies inside the logical array. Then
  packing succeeds, the physical array has \<open>maxLen * numRegions\<close> bits, and for every
  region \<open>(id, r)\<close> the physical slice \<open>[id*maxLen, id*maxLen + length)\<close> equals the
  logical slice \<open>[offset, offset + length)\<close> and every physical bit of the lane tail
  \<open>[id*maxLen + length, id*maxLen + maxLen)\<close> is 0.
\<close>

theorem C3_padding_identity:
  assumes "distinct (map fst (regions db))"
    and "\<forall>p \<in> set (regions db). 0 \<le> fst p \<and> fst p < int (length (regions db))"
    and "\<forall>p \<in> set (regions db). 0 \<le> region_offset (snd p) \<and> 0 \<le> region_length (snd p)
           \<and> region_offset (snd p) + region_length (snd p) \<le> int (length bs)"
    and "(i, r) \<in> set (regions db)"
  shows "\<exists>physical. pad_bitstream db bs = Inr physical
           \<and> length physical = nat (max_len db * int (length (regions db)))
           \<and> take (nat (region_length r)) (drop (nat (i * max_len db)) physical)
               = take (nat (region_length r)) (drop (nat (region_offset r)) bs)
           \<and> (\<forall>k. i * max_len db + region_length r \<le> int k
                    \<and> int k < i * max_len db + max_len db
                  \<longrightarrow> physical ! k = 0)"
proof -
  define M where "M = max_len db"
  define n where "n = length (regions db)"
  define padded where "padded = replicate (nat (M * int n)) (0 :: nat)"
  define physical where "physical = pad_regions M bs (regions db) padded"
  have ne: "regions db \<noteq> []"
    using assms(4) by auto
  have fin: "finite ((\<lambda>p. region_length (snd p)) ` set (regions db))"
    by simp
  have le: "\<And>p. p \<in> set (regions db) \<Longrightarrow> region_length (snd p) \<le> M"
    unfolding M_def max_len_def using fin by (intro Max_ge) auto
  have ir: "0 \<le> i" "i < int n" "0 \<le> region_offset r" "0 \<le> region_length r"
    "region_offset r + region_length r \<le> int (length bs)" "region_length r \<le> M"
    using assms(2,3,4) le [OF assms(4)] unfolding n_def by auto
  have M0: "0 \<le> M"
    using ir(4,6) by linarith
  have lane_in: "\<And>j. 0 \<le> j \<Longrightarrow> j < int n \<Longrightarrow> j * M + M \<le> M * int n"
  proof -
    fix j :: int
    assume "0 \<le> j" "j < int n"
    then have "j + 1 \<le> int n" by simp
    then have "(j + 1) * M \<le> int n * M"
      using M0 by (rule mult_right_mono)
    then show "j * M + M \<le> M * int n"
      by (simp add: algebra_simps)
  qed
  have lp: "int (length padded) = M * int n"
    unfolding padded_def using M0 by simp
  have fits: "\<forall>p \<in> set (regions db). region_fits M bs (length padded) p"
  proof
    fix p
    assume m: "p \<in> set (regions db)"
    have "fst p * M + M \<le> int (length padded)"
      unfolding lp using assms(2) m by (intro lane_in) (simp_all add: n_def)
    then show "region_fits M bs (length padded) p"
      using assms(2,3) m le [OF m] by (simp add: region_fits_def)
  qed
  from pad_regions_props [OF fits M0 assms(1)] have
    L: "length physical = length padded"
    and B: "\<And>k. k < length padded \<Longrightarrow> (\<forall>p \<in> set (regions db). \<not> in_lane_data M p k)
              \<Longrightarrow> physical ! k = padded ! k"
    and A: "\<And>p k. p \<in> set (regions db) \<Longrightarrow> in_lane_data M p k
              \<Longrightarrow> physical ! k = bs ! nat (region_offset (snd p) + (int k - fst p * M))"
    unfolding physical_def by blast+
  have nneg: "\<not> M * int n < 0"
    using M0 by (simp add: not_less)
  have c1: "pad_bitstream db bs = Inr physical"
    using ne nneg py_max_regions [OF ne]
    by (simp add: pad_bitstream_def Let_def physical_def padded_def M_def n_def)
  have c2: "length physical = nat (M * int n)"
    using L by (simp add: padded_def)
  have iM: "0 \<le> i * M"
    using ir(1) M0 by simp
  have lane: "i * M + M \<le> int (length physical)"
    using lane_in [OF ir(1,2)] L lp by simp
  have a1: "nat (i * M) + nat (region_length r) \<le> length physical"
    using ir(4,6) iM lane by linarith
  have a2: "nat (region_offset r) + nat (region_length r) \<le> length bs"
    using ir(3,4,5) by linarith
  have c3: "take (nat (region_length r)) (drop (nat (i * M)) physical)
              = take (nat (region_length r)) (drop (nat (region_offset r)) bs)"
  proof (rule nth_equalityI)
    show "length (take (nat (region_length r)) (drop (nat (i * M)) physical))
            = length (take (nat (region_length r)) (drop (nat (region_offset r)) bs))"
      using a1 a2 by simp
  next
    fix j
    assume "j < length (take (nat (region_length r)) (drop (nat (i * M)) physical))"
    then have j: "j < nat (region_length r)"
      by simp
    have l: "in_lane_data M (i, r) (nat (i * M) + j)"
      using j iM by (simp add: in_lane_data_def)
    have "physical ! (nat (i * M) + j)
            = bs ! nat (region_offset r + (int (nat (i * M) + j) - i * M))"
      using A [OF assms(4) l] by simp
    moreover have "nat (region_offset r + (int (nat (i * M) + j) - i * M))
                     = nat (region_offset r) + j"
      using iM ir(3) by simp
    moreover have "nat (i * M) + j \<le> length physical" "nat (region_offset r) + j \<le> length bs"
      using j a1 a2 by linarith+
    ultimately show "take (nat (region_length r)) (drop (nat (i * M)) physical) ! j
            = take (nat (region_length r)) (drop (nat (region_offset r)) bs) ! j"
      using j by simp
  qed
  have c4: "\<forall>k. i * M + region_length r \<le> int k \<and> int k < i * M + M \<longrightarrow> physical ! k = 0"
  proof (intro allI impI)
    fix k
    assume k: "i * M + region_length r \<le> int k \<and> int k < i * M + M"
    have kl: "k < length padded"
      using k lane L by linarith
    have "\<forall>p \<in> set (regions db). \<not> in_lane_data M p k"
    proof
      fix p
      assume m: "p \<in> set (regions db)"
      show "\<not> in_lane_data M p k"
      proof (cases "fst p = i")
        case True
        have "inj_on fst (set (regions db))"
          using assms(1) by (simp add: distinct_map)
        moreover have "fst p = fst (i, r)"
          using True by simp
        ultimately have "p = (i, r)"
          using m assms(4) by (rule inj_onD)
        with k show ?thesis by (simp add: in_lane_data_def)
      next
        case False
        have "in_lane_data M (i, r\<lparr>region_length := M\<rparr>) k"
          using k ir(4) by (simp add: in_lane_data_def)
        with lanes_disjoint [of "(i, r\<lparr>region_length := M\<rparr>)" p M k] False M0 le [OF m]
        show ?thesis by simp
      qed
    qed
    from B [OF kl this] kl show "physical ! k = 0"
      by (simp add: padded_def)
  qed
  from c1 c2 c3 c4 show ?thesis
    unfolding M_def n_def by blast
qed

theorem C3_padding_identity_witness:
  "pad_bitstream db_two [1, 0, 1, 1] = Inr [1, 0, 1, 1, 0, 0]
   \<and> max_len db_two = 3
   \<and> (\<exists>physical. pad_bitstream db_two [1, 0, 1, 1] = Inr physical
         \<and> length physical = 6
         \<and> take 1 (drop 3 physical) = [1]
         \<and> physical ! 4 = 0 \<and> physical ! 5 = 0)"
proof -
  have h1: "distinct (map fst (regions db_two))"
    by (simp add: db_two_def)
  have h2: "\<forall>p \<in> set (regions db_two). 0 \<le> fst p \<and> fst p < int (length (regions db_two))"
    by (simp add: db_two_def)
  have h3: "\<forall>p \<in> set (regions db_two). 0 \<le> region_offset (snd p) \<and> 0 \<le> region_length (snd p)
           \<and> region_offset (snd p) + region_length (snd p) \<le> int (length [1, 0, 1, 1 :: nat])"
    by (simp add: db_two_def)
  have h4: "(1, \<lparr>region_offset = 3, region_length = 1\<rparr>) \<in> set (regions db_two)"
    by (simp add: db_two_def)
  have m: "max_len db_two = 3"
    by (simp add: max_len_def db_two_def)
  have n: "length (regions db_two) = 2"
    by (simp add: db_two_def)
  have p: "pad_bitstream db_two [1, 0, 1, 1] = Inr [1, 0, 1, 1, 0, 0]"
    by code_simp
  from C3_padding_identity [OF h1 h2 h3 h4] obtain physical where
    a: "pad_bitstream db_two [1, 0, 1, 1] = Inr physical"
    and b: "length physical = nat (max_len db_two * int (length (regions db_two)))"
    and c: "take (nat 1) (drop (nat (1 * max_len db_two)) physical)
              = take (nat 1) (drop (nat 3) [1, 0, 1, 1])"
    and d: "\<forall>k. 1 * max_len db_two + 1 \<le> int k \<and> int k < 1 * max_len db_two + max_len db_two
              \<longrightarrow> physical ! k = 0"
    by auto
  have b': "length physical = 6"
    using b by (simp add: m n)
  have c': "take 1 (drop 3 physical) = [1]"
    using c by (simp add: m)
  have d4: "physical ! 4 = 0"
    using d [rule_format, of 4] by (simp add: m)
  have d5: "physical ! 5 = 0"
    using d [rule_format, of 5] by (simp add: m)
  from a b' c' d4 d5 p m show ?thesis by blast
qed

subsection \<open>Assembling without collisions\<close>
















subsection \<open>Disassembling a table\<close>




subsection \<open>Disassembling the database\<close>





subsection \<open>From a statement to the entry that the disassembler visits\<close>








subsection \<open>The round trip\<close>




end
